theory Spec2Isabelle
  imports Main "HOL-Library.Word" "HOL-Library.Char_ord" "HOL-Library.List_Lexorder"
begin

unbundle bit_operations_syntax

section \<open>Command-line resolution of the Spindle launcher (src/fe/launchmon/parseargs.cc)\<close>

subsection \<open>Machine types\<close>

text \<open>
  \<open>unsigned long\<close> is the 64-bit word of the LP64 platforms Spindle builds on,
  \<open>unsigned int\<close> the 32-bit word. Option keys and the security-model number are C
  \<open>int\<close>s that only hold character codes, the argp key constants and \<open>256 + n\<close> for
  a small \<open>n\<close>; they are modelled as \<open>int\<close>.
\<close>

type_synonym ulong = "64 word"
type_synonym uint = "32 word"

subsection \<open>The headers: spindle_launch.h and config.h\<close>

text \<open>
  Modelled from the spec: spindle_launch.h is not among the sources. Its option codes
  \<open>OPT_*\<close>, its security-model numbers \<open>OPT_SEC_*\<close> and the position of the
  sub-range that the macro \<open>OPT_SET_SEC\<close> writes are taken as parameters, collected
  in the record \<open>launch_h\<close>. Each option code is held at the value it has as an
  \<open>unsigned long\<close>.
\<close>

record launch_h =
  OPT_COBO :: ulong
  OPT_DEBUG :: ulong
  OPT_FOLLOWFORK :: ulong
  OPT_PRELOAD :: ulong
  OPT_PUSH :: ulong
  OPT_PULL :: ulong
  OPT_RELOCAOUT :: ulong
  OPT_RELOCSO :: ulong
  OPT_RELOCEXEC :: ulong
  OPT_RELOCPY :: ulong
  OPT_STRIP :: ulong
  OPT_NOCLEAN :: ulong
  OPT_NOHIDE :: ulong
  OPT_REMAPEXEC :: ulong
  OPT_NOMPI :: ulong
  OPT_SEC_MUNGE :: int
  OPT_SEC_KEYLMON :: int
  OPT_SEC_KEYFILE :: int
  OPT_SEC_NULL :: int
  OPT_SEC_SHIFT :: nat

text \<open>
  Modelled from the spec: section 4.2, item 4 has the security model encoded into
  "a reserved sub-range of bits representing one-of-N values"; the macro
  \<open>OPT_SET_SEC(OPT, X)\<close> is modelled as writing the number \<open>X\<close>, shifted to that
  sub-range, into \<open>OPT\<close>.
\<close>

definition OPT_SET_SEC :: "launch_h \<Rightarrow> ulong \<Rightarrow> int \<Rightarrow> ulong" where
  "OPT_SET_SEC h OPT X = OPT OR push_bit (OPT_SEC_SHIFT h) (word_of_int X)"

text \<open>
  config.h is generated by configure and not among the sources: the preprocessor
  symbols that parseargs.cc tests with \<open>defined\<close> are booleans, the three values it
  reads are fields.
\<close>

record config_h =
  MUNGE :: bool
  SECLMON :: bool
  KEYFILE :: bool
  ENABLE_NULL_ENCRYPTION :: bool
  USAGE_LOGGING_FILE :: bool
  SPINDLE_PORT :: uint
  SPINDLE_LOC :: string
  PYTHON_INST_PREFIX :: string

subsection \<open>Keys, groups and compiled defaults\<close>

definition RELOCAOUT :: int where "RELOCAOUT = of_char CHR ''a''"
definition COBO :: int where "COBO = of_char CHR ''c''"
definition DEBUG :: int where "DEBUG = of_char CHR ''d''"
definition PRELOAD :: int where "PRELOAD = of_char CHR ''e''"
definition FOLLOWFORK :: int where "FOLLOWFORK = of_char CHR ''f''"
definition HIDE :: int where "HIDE = of_char CHR ''h''"
definition RELOCSO :: int where "RELOCSO = of_char CHR ''l''"
definition NOMPI :: int where "NOMPI = of_char CHR ''m''"
definition NOCLEAN :: int where "NOCLEAN = of_char CHR ''n''"
definition LOCATION :: int where "LOCATION = of_char CHR ''o''"
definition PUSH :: int where "PUSH = of_char CHR ''p''"
definition PULL :: int where "PULL = of_char CHR ''q''"
definition PYTHONPREFIX :: int where "PYTHONPREFIX = of_char CHR ''r''"
definition STRIP :: int where "STRIP = of_char CHR ''s''"
definition PORT :: int where "PORT = of_char CHR ''t''"
definition RELOCEXEC :: int where "RELOCEXEC = of_char CHR ''x''"
definition RELOCPY :: int where "RELOCPY = of_char CHR ''y''"
definition DISABLE_LOGGING :: int where "DISABLE_LOGGING = of_char CHR ''z''"
definition SECMUNGE :: "launch_h \<Rightarrow> int" where "SECMUNGE h = 256 + OPT_SEC_MUNGE h"
definition SECKEYLMON :: "launch_h \<Rightarrow> int" where "SECKEYLMON h = 256 + OPT_SEC_KEYLMON h"
definition SECKEYFILE :: "launch_h \<Rightarrow> int" where "SECKEYFILE h = 256 + OPT_SEC_KEYFILE h"
definition SECNULL :: "launch_h \<Rightarrow> int" where "SECNULL h = 256 + OPT_SEC_NULL h"

definition GROUP_RELOC :: int where "GROUP_RELOC = 1"
definition GROUP_PUSHPULL :: int where "GROUP_PUSHPULL = 2"
definition GROUP_NETWORK :: int where "GROUP_NETWORK = 3"
definition GROUP_SEC :: int where "GROUP_SEC = 4"
definition GROUP_MISC :: int where "GROUP_MISC = 5"

text \<open>
  The \<open>#if defined(MUNGE) ... #elif ...\<close> chain that selects \<open>DEFAULT_SEC\<close>. With
  none of the four symbols defined the file does not compile (\<open>#error\<close>); the last
  branch is only reached under \<open>ENABLE_NULL_ENCRYPTION\<close> in a build that exists.
\<close>

definition DEFAULT_SEC :: "launch_h \<Rightarrow> config_h \<Rightarrow> int" where
  "DEFAULT_SEC h c =
     (if MUNGE c then OPT_SEC_MUNGE h
      else if SECLMON c then OPT_SEC_KEYFILE h
      else if KEYFILE c then OPT_SEC_KEYFILE h
      else OPT_SEC_NULL h)"

definition YESNO :: string where "YESNO = ''yes|no''"

definition all_reloc_opts :: "launch_h \<Rightarrow> ulong" where
  "all_reloc_opts h =
     OPT_RELOCAOUT h OR OPT_RELOCSO h OR OPT_RELOCEXEC h OR OPT_RELOCPY h OR OPT_FOLLOWFORK h"

definition all_network_opts :: "launch_h \<Rightarrow> ulong" where
  "all_network_opts h = OPT_COBO h"

definition all_pushpull_opts :: "launch_h \<Rightarrow> ulong" where
  "all_pushpull_opts h = OPT_PUSH h OR OPT_PULL h"

definition all_misc_opts :: "launch_h \<Rightarrow> ulong" where
  "all_misc_opts h = OPT_STRIP h OR OPT_DEBUG h OR OPT_PRELOAD h OR OPT_NOCLEAN h"

definition default_reloc_opts :: "launch_h \<Rightarrow> ulong" where
  "default_reloc_opts h =
     OPT_RELOCAOUT h OR OPT_RELOCSO h OR OPT_RELOCEXEC h OR OPT_RELOCPY h OR OPT_FOLLOWFORK h"

definition default_network_opts :: "launch_h \<Rightarrow> ulong" where
  "default_network_opts h = OPT_COBO h"

definition default_pushpull_opts :: "launch_h \<Rightarrow> ulong" where
  "default_pushpull_opts h = OPT_PUSH h"

definition default_misc_opts :: "launch_h \<Rightarrow> ulong" where
  "default_misc_opts h = OPT_STRIP h"

definition default_sec :: "launch_h \<Rightarrow> config_h \<Rightarrow> int" where
  "default_sec h c = DEFAULT_SEC h c"

definition DEFAULT_LOGGING_ENABLED :: "config_h \<Rightarrow> bool" where
  "DEFAULT_LOGGING_ENABLED c = USAGE_LOGGING_FILE c"

text \<open>\<open>OPTION_HIDDEN\<close> is 0x2 in argp.h.\<close>

definition OPTION_HIDDEN :: int where "OPTION_HIDDEN = 2"

definition DISABLE_LOGGING_FLAGS :: "config_h \<Rightarrow> int" where
  "DISABLE_LOGGING_FLAGS c = (if USAGE_LOGGING_FILE c then 0 else OPTION_HIDDEN)"

subsection \<open>The option table\<close>

text \<open>
  One \<open>struct argp_option\<close> without its help text. A \<open>NULL\<close> name or argument is
  \<open>None\<close>; the group of an entry that gives none is 0.
\<close>

record argp_option =
  name :: "string option"
  key :: int
  arg :: "string option"
  flags :: int
  group :: int

definition opt_entry :: "string \<Rightarrow> int \<Rightarrow> string option \<Rightarrow> int \<Rightarrow> int \<Rightarrow> argp_option" where
  "opt_entry n k a f g = \<lparr>name = Some n, key = k, arg = a, flags = f, group = g\<rparr>"

definition null_entry :: argp_option where
  "null_entry = \<lparr>name = None, key = 0, arg = None, flags = 0, group = 0\<rparr>"

text \<open>
  The table \<open>options[]\<close>, the security entries present as the build compiles them in,
  closed by the all-zero entry.
\<close>

definition options :: "launch_h \<Rightarrow> config_h \<Rightarrow> argp_option list" where
  "options h c =
     [opt_entry ''reloc-aout'' RELOCAOUT (Some YESNO) 0 GROUP_RELOC,
      opt_entry ''reloc-libs'' RELOCSO (Some YESNO) 0 GROUP_RELOC,
      opt_entry ''reloc-python'' RELOCPY (Some YESNO) 0 GROUP_RELOC,
      opt_entry ''reloc-exec'' RELOCEXEC (Some YESNO) 0 GROUP_RELOC,
      opt_entry ''follow-fork'' FOLLOWFORK (Some YESNO) 0 GROUP_RELOC,
      opt_entry ''push'' PUSH None 0 GROUP_PUSHPULL,
      opt_entry ''pull'' PULL None 0 GROUP_PUSHPULL,
      opt_entry ''cobo'' COBO None 0 GROUP_NETWORK,
      opt_entry ''port'' PORT (Some ''number'') 0 GROUP_NETWORK,
      opt_entry ''location'' LOCATION (Some ''directory'') 0 GROUP_NETWORK]
     @ (if MUNGE c then [opt_entry ''security-munge'' (SECMUNGE h) None 0 GROUP_SEC] else [])
     @ (if SECLMON c then [opt_entry ''security-lmon'' (SECKEYLMON h) None 0 GROUP_SEC] else [])
     @ (if KEYFILE c then [opt_entry ''security-keyfile'' (SECKEYFILE h) None 0 GROUP_SEC] else [])
     @ (if ENABLE_NULL_ENCRYPTION c
        then [opt_entry ''security-none'' (SECNULL h) None 0 GROUP_SEC] else [])
     @ [opt_entry ''python-prefix'' PYTHONPREFIX (Some ''=path'') 0 GROUP_MISC,
        opt_entry ''debug'' DEBUG (Some YESNO) 0 GROUP_MISC,
        opt_entry ''preload'' PRELOAD (Some ''FILE'') 0 GROUP_MISC,
        opt_entry ''strip'' STRIP (Some YESNO) 0 GROUP_MISC,
        opt_entry ''noclean'' NOCLEAN (Some YESNO) 0 GROUP_MISC,
        opt_entry ''disable-logging'' DISABLE_LOGGING None (DISABLE_LOGGING_FLAGS c) GROUP_MISC,
        opt_entry ''no-mpi'' NOMPI None 0 0,
        opt_entry ''no-hide'' HIDE None 0 GROUP_MISC,
        null_entry]"

subsection \<open>opt_key_to_code and multi_bits_set\<close>

definition opt_key_to_code :: "launch_h \<Rightarrow> int \<Rightarrow> ulong" where
  "opt_key_to_code h k =
     (if k = RELOCAOUT then OPT_RELOCAOUT h
      else if k = COBO then OPT_COBO h
      else if k = DEBUG then OPT_DEBUG h
      else if k = PRELOAD then OPT_PRELOAD h
      else if k = FOLLOWFORK then OPT_FOLLOWFORK h
      else if k = RELOCSO then OPT_RELOCSO h
      else if k = PUSH then OPT_PUSH h
      else if k = PULL then OPT_PULL h
      else if k = STRIP then OPT_STRIP h
      else if k = RELOCEXEC then OPT_RELOCEXEC h
      else if k = RELOCPY then OPT_RELOCPY h
      else if k = NOCLEAN then OPT_NOCLEAN h
      else 0)"

definition multi_bits_set :: "ulong \<Rightarrow> bool" where
  "multi_bits_set v \<longleftrightarrow> v AND (v - 1) \<noteq> 0"

subsection \<open>The C library's atoi\<close>

text \<open>
  \<open>atoi\<close> is the C library's: white space is skipped, an optional sign is read, then
  the longest run of decimal digits; with no digit the value is 0. The C standard leaves
  a value outside \<open>int\<close> undefined; glibc computes \<open>(int) strtol (s, NULL, 10)\<close>,
  where \<open>strtol\<close> stops at \<open>LONG_MAX\<close> and \<open>LONG_MIN\<close>, and the model follows it.
\<close>

definition isspace :: "char \<Rightarrow> bool" where
  "isspace ch \<longleftrightarrow> ch \<in> {CHR '' '', CHR 0x09, CHR 0x0A, CHR 0x0B, CHR 0x0C, CHR 0x0D}"

definition isdigit :: "char \<Rightarrow> bool" where
  "isdigit ch \<longleftrightarrow> CHR ''0'' \<le> ch \<and> ch \<le> CHR ''9''"

definition digit_value :: "char \<Rightarrow> int" where
  "digit_value ch = of_char ch - of_char CHR ''0''"

fun leading_digits :: "int \<Rightarrow> string \<Rightarrow> int" where
  "leading_digits acc [] = acc"
| "leading_digits acc (ch # s) =
     (if isdigit ch then leading_digits (10 * acc + digit_value ch) s else acc)"

definition LONG_MAX :: int where "LONG_MAX = 2 ^ 63 - 1"
definition LONG_MIN :: int where "LONG_MIN = - (2 ^ 63)"

definition strtol10 :: "string \<Rightarrow> int" where
  "strtol10 s =
     (let s1 = dropWhile isspace s in
      case s1 of
        [] \<Rightarrow> 0
      | ch # r \<Rightarrow>
          if ch = CHR ''-'' then max LONG_MIN (- leading_digits 0 r)
          else if ch = CHR ''+'' then min LONG_MAX (leading_digits 0 r)
          else min LONG_MAX (leading_digits 0 s1))"

definition atoi :: "string \<Rightarrow> int" where
  "atoi s = sint (word_of_int (strtol10 s) :: 32 word)"

subsection \<open>The file's global variables\<close>

text \<open>
  All the file-scope variables that \<open>parse\<close> and the accessors read and write, as one
  record. A \<open>NULL\<close> \<open>char *\<close> is \<open>None\<close>; \<open>mpi_argv\<close> is the vector it points to
  (empty while unset). \<open>python_prefixes\<close>, a \<open>std::set<string>\<close>, is held as the
  list of its members in iteration order, which for \<open>std::less<string>\<close> is the
  lexicographic order of the bytes.
\<close>

record globals =
  enabled_opts :: ulong
  disabled_opts :: ulong
  preload_file :: "string option"
  mpi_argv :: "string list"
  mpi_argc :: int
  "done" :: bool
  use_mpi :: bool
  hide_fd :: bool
  sec_model :: int
  python_prefixes :: "string list"
  user_python_prefixes :: "string option"
  logging_enabled :: bool
  spindle_port :: uint
  spindle_location :: string
  opts :: ulong

definition init_globals :: "config_h \<Rightarrow> globals" where
  "init_globals c =
     \<lparr>enabled_opts = 0, disabled_opts = 0, preload_file = None, mpi_argv = [], mpi_argc = 0,
      done = False, use_mpi = True, hide_fd = True, sec_model = - 1, python_prefixes = [],
      user_python_prefixes = None, logging_enabled = DEFAULT_LOGGING_ENABLED c,
      spindle_port = SPINDLE_PORT c, spindle_location = SPINDLE_LOC c, opts = 0\<rparr>"

subsection \<open>Errors\<close>

text \<open>
  \<open>argp_error\<close> prints its message and exits (the parser is run without
  \<open>ARGP_NO_EXIT\<close>), so each call of it ends the run with the error of that message.
  The last three errors are not raised by the file itself: a \<open>NULL\<close> argument
  reaching \<open>strcmp\<close>, \<open>atoi\<close> or a \<open>std::string\<close> assignment, the dereference of
  \<open>begin()\<close> of an empty set, and a failure that \<open>argp_parse\<close> reports itself.
\<close>

datatype error =
    MustBeYesOrNo "string option"
  | PortZeroValue
  | SameOptionEnabledAndDisabled
  | MultipleNetworkOptions
  | BothPushAndPull
  | NoMPICommandLine
  | NullArgument
  | EmptySetDereference
  | ArgpFailure

subsection \<open>The argp parser callback\<close>

text \<open>The key constants of argp.h and the fields of \<open>struct argp_state\<close> that are read.\<close>

definition ARGP_KEY_ARG :: int where "ARGP_KEY_ARG = 0"
definition ARGP_KEY_ARGS :: int where "ARGP_KEY_ARGS = 0x1000006"
definition ARGP_KEY_END :: int where "ARGP_KEY_END = 0x1000001"
definition ARGP_KEY_NO_ARGS :: int where "ARGP_KEY_NO_ARGS = 0x1000002"
definition ARGP_KEY_INIT :: int where "ARGP_KEY_INIT = 0x1000003"
definition ARGP_KEY_FINI :: int where "ARGP_KEY_FINI = 0x1000007"
definition ARGP_KEY_SUCCESS :: int where "ARGP_KEY_SUCCESS = 0x1000004"
definition ARGP_ERR_UNKNOWN :: int where "ARGP_ERR_UNKNOWN = 7"

record argp_state =
  argc :: int
  argv :: "string list"
  "next" :: int

text \<open>
  The loop \<open>for (entry = options; entry->key; entry++)\<close>: the first entry with the
  key, or the closing entry with key 0.
\<close>

fun find_entry :: "argp_option list \<Rightarrow> int \<Rightarrow> argp_option" where
  "find_entry [] k = null_entry"
| "find_entry (e # es) k =
     (if key e = 0 then e else if key e = k then e else find_entry es k)"

text \<open>
  \<open>parse\<close> returns its result code and the updated globals, or the error it exits
  with. \<open>entry->arg == YESNO\<close> compares pointers; \<open>YESNO\<close> is the only string of the
  table with these contents, so comparing contents is the same test.
\<close>

definition parse ::
  "launch_h \<Rightarrow> config_h \<Rightarrow> int \<Rightarrow> string option \<Rightarrow> argp_state \<Rightarrow> globals
     \<Rightarrow> error + (int \<times> globals)" where
  "parse h c k a state g =
     (if done g \<and> k \<noteq> ARGP_KEY_END then Inr (0, g)
      else
        let entry = find_entry (options h c) k;
            opt = opt_key_to_code h k
        in
        if arg entry = Some YESNO then
          (case a of
             None \<Rightarrow> Inl NullArgument
           | Some s \<Rightarrow>
               if s = ''yes'' \<or> s = ''y'' then
                 Inr (0, g\<lparr>enabled_opts := enabled_opts g OR opt\<rparr>)
               else if s = ''no'' \<or> s = ''n'' then
                 Inr (0, g\<lparr>disabled_opts := disabled_opts g OR opt\<rparr>)
               else Inl (MustBeYesOrNo (name entry)))
        else if key entry \<noteq> 0 \<and> arg entry = None \<and> opt \<noteq> 0 then
          Inr (0, g\<lparr>enabled_opts := enabled_opts g OR opt\<rparr>)
        else if key entry = PRELOAD then
          Inr (0, g\<lparr>enabled_opts := enabled_opts g OR opt, preload_file := a\<rparr>)
        else if key entry = PORT then
          (case a of
             None \<Rightarrow> Inl NullArgument
           | Some s \<Rightarrow>
               let port = (word_of_int (atoi s) :: uint) in
               if port = 0 then Inl PortZeroValue
               else Inr (0, g\<lparr>spindle_port := port\<rparr>))
        else if key entry = LOCATION then
          (case a of
             None \<Rightarrow> Inl NullArgument
           | Some s \<Rightarrow> Inr (0, g\<lparr>spindle_location := s\<rparr>))
        else if k = DISABLE_LOGGING then
          Inr (0, g\<lparr>logging_enabled := False\<rparr>)
        else if k = NOMPI then
          Inr (0, g\<lparr>use_mpi := False, opts := opts g OR OPT_NOMPI h\<rparr>)
        else if k = HIDE then
          Inr (0, g\<lparr>hide_fd := False, opts := opts g OR OPT_NOHIDE h\<rparr>)
        else if group entry = GROUP_SEC then
          Inr (0, g\<lparr>sec_model := k - 256\<rparr>)
        else if k = ARGP_KEY_ARG then
          (if argc state = 0 then Inr (0, g) else Inr (ARGP_ERR_UNKNOWN, g))
        else if k = PYTHONPREFIX then
          Inr (0, g\<lparr>user_python_prefixes := a\<rparr>)
        else if k = ARGP_KEY_ARGS then
          Inr (0, g\<lparr>mpi_argv := drop (nat (next state)) (argv state),
                      mpi_argc := argc state - next state,
                      done := True\<rparr>)
        else if k = ARGP_KEY_END then
          (if enabled_opts g AND disabled_opts g \<noteq> 0 then Inl SameOptionEnabledAndDisabled
           else
             let enabled_network_opts = enabled_opts g AND all_network_opts h in
             if multi_bits_set enabled_network_opts then Inl MultipleNetworkOptions
             else
               let opts1 = opts g OR (if enabled_network_opts \<noteq> 0 then enabled_network_opts
                                      else default_network_opts h);
                   enabled_pushpull_opts = enabled_opts g AND all_pushpull_opts h
               in
               if multi_bits_set enabled_pushpull_opts then Inl BothPushAndPull
               else
                 let opts2 = opts1 OR (if enabled_pushpull_opts \<noteq> 0 then enabled_pushpull_opts
                                       else default_pushpull_opts h);
                     opts3 = opts2 OR (all_reloc_opts h AND NOT (disabled_opts g)
                                         AND (enabled_opts g OR default_reloc_opts h));
                     sec = (if sec_model g = - 1 then default_sec h c else sec_model g);
                     opts4 = OPT_SET_SEC h opts3 sec;
                     opts5 = opts4 OR (all_misc_opts h AND NOT (disabled_opts g)
                                         AND (enabled_opts g OR default_misc_opts h))
                 in Inr (0, g\<lparr>sec_model := sec, opts := opts5\<rparr>))
        else if k = ARGP_KEY_NO_ARGS then Inl NoMPICommandLine
        else Inr (0, g))"

subsection \<open>argp_parse and parseArgs\<close>

text \<open>
  \<open>argp_parse\<close> is the C library's. What it does with this parser under
  \<open>ARGP_IN_ORDER\<close> is modelled on its result for a command line that consists of
  recognised options followed by the command: \<open>pre\<close> are the program name and the
  option words, \<open>evs\<close> the keys and arguments that getopt reads from them, in order,
  and \<open>cmd\<close> the words from the first non-option on. The parser is called with
  \<open>ARGP_KEY_INIT\<close>, with each option, with \<open>ARGP_KEY_ARG\<close> for the first word of the
  command and, at the answer \<open>ARGP_ERR_UNKNOWN\<close>, with \<open>ARGP_KEY_ARGS\<close> (which
  consumes the rest), or with \<open>ARGP_KEY_NO_ARGS\<close> when there is no command; then with
  \<open>ARGP_KEY_END\<close>, \<open>ARGP_KEY_SUCCESS\<close> and \<open>ARGP_KEY_FINI\<close>.
\<close>

definition and_then :: "error + 'a \<Rightarrow> ('a \<Rightarrow> error + 'b) \<Rightarrow> error + 'b" where
  "and_then r f = (case r of Inl e \<Rightarrow> Inl e | Inr x \<Rightarrow> f x)"

fun scan ::
  "launch_h \<Rightarrow> config_h \<Rightarrow> argp_state \<Rightarrow> (int \<times> string option) list \<Rightarrow> globals
     \<Rightarrow> error + globals" where
  "scan h c state [] g = Inr g"
| "scan h c state ((k, a) # evs) g =
     and_then (parse h c k a state g)
       (\<lambda>(rc, g'). if rc = 0 then scan h c state evs g' else Inl ArgpFailure)"

definition argp_parse ::
  "launch_h \<Rightarrow> config_h \<Rightarrow> string list \<Rightarrow> (int \<times> string option) list \<Rightarrow> string list
     \<Rightarrow> globals \<Rightarrow> error + globals" where
  "argp_parse h c pre evs cmd g =
     (let av = pre @ cmd;
          state = \<lparr>argc = int (length av), argv = av, next = int (length pre)\<rparr>
      in
      and_then (parse h c ARGP_KEY_INIT None state g) (\<lambda>(rc, g1).
      and_then (scan h c state evs g1) (\<lambda>g2.
      and_then
        (case cmd of
           [] \<Rightarrow> and_then (parse h c ARGP_KEY_NO_ARGS None state g2) (\<lambda>(rc, g'). Inr g')
         | w # ws \<Rightarrow>
             and_then
               (parse h c ARGP_KEY_ARG (Some w) (state\<lparr>next := int (length pre) + 1\<rparr>) g2)
               (\<lambda>(rc, g').
                  if rc = ARGP_ERR_UNKNOWN then
                    and_then (parse h c ARGP_KEY_ARGS None state g') (\<lambda>(rc, g''). Inr g'')
                  else Inl ArgpFailure))
        (\<lambda>g3.
      and_then (parse h c ARGP_KEY_END None (state\<lparr>next := argc state\<rparr>) g3) (\<lambda>(rc, g4).
      and_then (parse h c ARGP_KEY_SUCCESS None (state\<lparr>next := argc state\<rparr>) g4) (\<lambda>(rc, g5).
      and_then (parse h c ARGP_KEY_FINI None (state\<lparr>next := argc state\<rparr>) g5) (\<lambda>(rc, g6).
        Inr g6)))))))"

text \<open>
  \<open>parseArgs\<close> returns the bit set \<open>opts\<close>, here together with the globals it leaves
  behind. The first call of a process starts from \<open>init_globals\<close>.
\<close>

definition parseArgs ::
  "launch_h \<Rightarrow> config_h \<Rightarrow> string list \<Rightarrow> (int \<times> string option) list \<Rightarrow> string list
     \<Rightarrow> globals \<Rightarrow> error + (ulong \<times> globals)" where
  "parseArgs h c pre evs cmd g =
     and_then (argp_parse h c pre evs cmd (g\<lparr>done := False\<rparr>)) (\<lambda>g1.
       let g2 = (if opts g1 AND OPT_DEBUG h \<noteq> 0 then
                   g1\<lparr>opts := ((opts g1 AND NOT (OPT_RELOCAOUT h)) AND NOT (OPT_RELOCEXEC h))
                                 OR OPT_REMAPEXEC h\<rparr>
                 else g1)
       in Inr (opts g2, g2))"

definition getPreloadFile :: "globals \<Rightarrow> string option" where
  "getPreloadFile g = preload_file g"

definition getPort :: "globals \<Rightarrow> uint" where
  "getPort g = spindle_port g"

subsection \<open>The python prefixes\<close>

definition default_python_prefixes :: "config_h \<Rightarrow> string" where
  "default_python_prefixes c = PYTHON_INST_PREFIX c"

text \<open>
  The \<open>for (;;)\<close> loop of \<open>parse_python_prefix\<close>: \<open>cur\<close> is the text from the
  pointer \<open>cur\<close> to the closing NUL, \<open>s\<close> the segment up to the next colon, and
  \<open>insort_insert\<close> the \<open>insert\<close> of the ordered set.
\<close>

function parse_python_prefix_loop :: "string \<Rightarrow> string list \<Rightarrow> string list" where
  "parse_python_prefix_loop cur ps =
     (let s = takeWhile (\<lambda>ch. ch \<noteq> CHR '':'') cur;
          colon = dropWhile (\<lambda>ch. ch \<noteq> CHR '':'') cur;
          ps' = (if s \<noteq> [] then insort_insert s ps else ps)
      in case colon of
           [] \<Rightarrow> ps'
         | ch # cur' \<Rightarrow> parse_python_prefix_loop cur' ps')"
  by pat_completeness auto
termination
proof (relation "measure (\<lambda>(cur, ps). length cur)", goal_cases)
  case 1
  show ?case by simp
next
  case (2 cur ps s colon ps' ch cur')
  from 2 have colon: "dropWhile (\<lambda>ch. ch \<noteq> CHR '':'') cur = ch # cur'"
    by simp
  have "length (dropWhile (\<lambda>ch. ch \<noteq> CHR '':'') cur) \<le> length cur"
    by (rule length_dropWhile_le)
  then show ?case unfolding colon by simp
qed

definition parse_python_prefix :: "string option \<Rightarrow> string list \<Rightarrow> string list" where
  "parse_python_prefix prefix ps =
     (case prefix of None \<Rightarrow> ps | Some cur \<Rightarrow> parse_python_prefix_loop cur ps)"

text \<open>
  The \<open>for (;;)\<close> loop of \<open>getPythonPrefixes\<close>, from the iterator position given by
  the rest of the set: \<open>*i\<close> is read before the iterator is compared with \<open>end()\<close>.
\<close>

fun getPythonPrefixes_loop :: "string list \<Rightarrow> string \<Rightarrow> error + string" where
  "getPythonPrefixes_loop [] result = Inl EmptySetDereference"
| "getPythonPrefixes_loop [p] result = Inr (result @ p)"
| "getPythonPrefixes_loop (p # q # ps) result =
     getPythonPrefixes_loop (q # ps) (result @ p @ '':'')"

definition getPythonPrefixes :: "config_h \<Rightarrow> globals \<Rightarrow> error + (string \<times> globals)" where
  "getPythonPrefixes c g =
     (let ps1 = parse_python_prefix (Some (default_python_prefixes c)) (python_prefixes g);
          ps2 = parse_python_prefix (user_python_prefixes g) ps1
      in and_then (getPythonPrefixes_loop ps2 [])
           (\<lambda>result. Inr (result, g\<lparr>python_prefixes := ps2\<rparr>)))"

declare parse_python_prefix_loop.simps [simp del]

text \<open>
  What one pass of the loop of \<open>parse_python_prefix\<close> does with its segment:
  \<open>if (!s.empty()) python_prefixes.insert(s)\<close>.
\<close>

definition insert_segment :: "string \<Rightarrow> string list \<Rightarrow> string list" where
  "insert_segment s ps = (if s \<noteq> [] then insort_insert s ps else ps)"

text \<open>
  The resolver in the words of section 4.4 of the specification, to compare with
  \<open>getPythonPrefixes\<close>: both lists are split on the colon, the empty segments are
  dropped, and the segments, without duplicates and in lexicographic order, are joined
  with colons.
\<close>

fun split_colon :: "string \<Rightarrow> string list" where
  "split_colon [] = [[]]"
| "split_colon (ch # cur) =
     (if ch = CHR '':'' then [] # split_colon cur
      else (case split_colon cur of
              [] \<Rightarrow> [[ch]]
            | s # ss \<Rightarrow> (ch # s) # ss))"

fun join_colon :: "string list \<Rightarrow> string" where
  "join_colon [] = []"
| "join_colon [p] = p"
| "join_colon (p # q # ps) = p @ '':'' @ join_colon (q # ps)"

definition prefix_segments :: "string \<Rightarrow> string option \<Rightarrow> string list" where
  "prefix_segments d u =
     filter (\<lambda>s. s \<noteq> [])
       (split_colon d @ (case u of None \<Rightarrow> [] | Some u' \<Rightarrow> split_colon u'))"

definition spec_python_prefixes :: "string \<Rightarrow> string option \<Rightarrow> string" where
  "spec_python_prefixes d u = join_colon (sort (remdups (prefix_segments d u)))"

subsection \<open>Admissible headers and option events\<close>

text \<open>
  Modelled from the spec: what the statements below need of spindle_launch.h. By
  section 3 a feature bit is "one independent boolean capability" of a bit mask, so
  every option code has exactly one bit set and no two codes are equal; by section 4.2
  the security model has a reserved sub-range, so no security-model number, shifted to
  its place, meets an option code. The security-model numbers are different from each
  other and not negative, and the keys \<open>256 + n\<close> made from them stay below the
  reserved keys of argp.
\<close>

definition option_codes :: "launch_h \<Rightarrow> ulong list" where
  "option_codes h =
     [OPT_RELOCAOUT h, OPT_RELOCSO h, OPT_RELOCEXEC h, OPT_RELOCPY h, OPT_FOLLOWFORK h,
      OPT_PUSH h, OPT_PULL h, OPT_COBO h,
      OPT_STRIP h, OPT_DEBUG h, OPT_PRELOAD h, OPT_NOCLEAN h,
      OPT_NOMPI h, OPT_NOHIDE h, OPT_REMAPEXEC h]"

definition security_models :: "launch_h \<Rightarrow> int list" where
  "security_models h = [OPT_SEC_MUNGE h, OPT_SEC_KEYLMON h, OPT_SEC_KEYFILE h, OPT_SEC_NULL h]"

definition one_bit :: "ulong \<Rightarrow> bool" where
  "one_bit v \<longleftrightarrow> v \<noteq> 0 \<and> \<not> multi_bits_set v"

definition launch_h_ok :: "launch_h \<Rightarrow> bool" where
  "launch_h_ok h \<longleftrightarrow>
     list_all one_bit (option_codes h) \<and> distinct (option_codes h) \<and>
     distinct (security_models h) \<and>
     list_all (\<lambda>x. 0 \<le> x \<and> 256 + x < ARGP_KEY_END) (security_models h) \<and>
     list_all (\<lambda>x. list_all (\<lambda>v. v AND OPT_SET_SEC h 0 x = 0) (option_codes h))
       (security_models h)"

text \<open>
  One header of this kind, for evaluating the definitions: the feature bits numbered
  from 1 in the order of their names, the security model in the bits from 19 on.
\<close>

definition sample_launch_h :: launch_h where
  "sample_launch_h =
     \<lparr>OPT_COBO = 0x2, OPT_DEBUG = 0x4, OPT_FOLLOWFORK = 0x8, OPT_PRELOAD = 0x10,
      OPT_PUSH = 0x20, OPT_PULL = 0x40, OPT_RELOCAOUT = 0x80, OPT_RELOCSO = 0x100,
      OPT_RELOCEXEC = 0x200, OPT_RELOCPY = 0x400, OPT_STRIP = 0x800, OPT_NOCLEAN = 0x1000,
      OPT_NOHIDE = 0x2000, OPT_REMAPEXEC = 0x4000, OPT_NOMPI = 0x8000,
      OPT_SEC_MUNGE = 0, OPT_SEC_KEYLMON = 1, OPT_SEC_KEYFILE = 2, OPT_SEC_NULL = 3,
      OPT_SEC_SHIFT = 19\<rparr>"

text \<open>Two builds: one with every security model compiled in, one with LaunchMON's only.\<close>

definition sample_config :: config_h where
  "sample_config =
     \<lparr>MUNGE = True, SECLMON = True, KEYFILE = True, ENABLE_NULL_ENCRYPTION = True,
      USAGE_LOGGING_FILE = False, SPINDLE_PORT = 21940, SPINDLE_LOC = ''/tmp'',
      PYTHON_INST_PREFIX = ''/a:/b''\<rparr>"

definition lmon_config :: config_h where
  "lmon_config =
     \<lparr>MUNGE = False, SECLMON = True, KEYFILE = False, ENABLE_NULL_ENCRYPTION = False,
      USAGE_LOGGING_FILE = False, SPINDLE_PORT = 21940, SPINDLE_LOC = ''/tmp'',
      PYTHON_INST_PREFIX = ''/usr''\<rparr>"

text \<open>
  The calls that argp makes for the options of a command line: the key of an entry of
  the table, with an argument exactly when the entry names one.
\<close>

definition option_event :: "launch_h \<Rightarrow> config_h \<Rightarrow> int \<times> string option \<Rightarrow> bool" where
  "option_event h c ev \<longleftrightarrow>
     list_ex (\<lambda>e. key e = fst ev \<and> (arg e = None \<longleftrightarrow> snd ev = None))
       (butlast (options h c))"

text \<open>
  The security model that the first security option of the compiled table selects:
  the first compiled candidate.
\<close>

definition first_candidate :: "launch_h \<Rightarrow> config_h \<Rightarrow> int option" where
  "first_candidate h c =
     map_option (\<lambda>e. key e - 256) (find (\<lambda>e. group e = GROUP_SEC) (options h c))"

text \<open>The decimal numeral of a natural number, as a command line writes a port.\<close>

fun decimal :: "nat \<Rightarrow> string" where
  "decimal n =
     (if n < 10 then [char_of (48 + n)]
      else decimal (n div 10) @ [char_of (48 + n mod 10)])"

declare decimal.simps [simp del]

subsection \<open>Notions for the statements\<close>

text \<open>
  The security entries of the compiled table; whether a key belongs to a yes/no option;
  and what one option call, with its key and argument, adds to \<open>enabled_opts\<close>, to
  \<open>disabled_opts\<close> and directly to \<open>opts\<close>, for one call and summed over a
  sequence of calls. That \<open>parse\<close> does add exactly these is proved below
  (\<open>parse_option_event\<close>, \<open>scan_option_events\<close>).
\<close>

definition sec_entries :: "launch_h \<Rightarrow> config_h \<Rightarrow> argp_option list" where
  "sec_entries h c = filter (\<lambda>e. group e = GROUP_SEC) (options h c)"

definition yesno_key :: "int \<Rightarrow> bool" where
  "yesno_key k \<longleftrightarrow>
     k \<in> set [RELOCAOUT, RELOCSO, RELOCPY, RELOCEXEC, FOLLOWFORK, DEBUG, STRIP, NOCLEAN]"

definition enable_code :: "launch_h \<Rightarrow> int \<times> string option \<Rightarrow> ulong" where
  "enable_code h ev =
     (if yesno_key (fst ev) then
        (if snd ev = Some ''yes'' \<or> snd ev = Some ''y'' then opt_key_to_code h (fst ev) else 0)
      else opt_key_to_code h (fst ev))"

definition disable_code :: "launch_h \<Rightarrow> int \<times> string option \<Rightarrow> ulong" where
  "disable_code h ev =
     (if yesno_key (fst ev) \<and> (snd ev = Some ''no'' \<or> snd ev = Some ''n'')
      then opt_key_to_code h (fst ev) else 0)"

definition direct_code :: "launch_h \<Rightarrow> int \<Rightarrow> ulong" where
  "direct_code h k = (if k = NOMPI then OPT_NOMPI h else if k = HIDE then OPT_NOHIDE h else 0)"

fun enabled_by :: "launch_h \<Rightarrow> (int \<times> string option) list \<Rightarrow> ulong" where
  "enabled_by h [] = 0"
| "enabled_by h (ev # evs) = enable_code h ev OR enabled_by h evs"

fun disabled_by :: "launch_h \<Rightarrow> (int \<times> string option) list \<Rightarrow> ulong" where
  "disabled_by h [] = 0"
| "disabled_by h (ev # evs) = disable_code h ev OR disabled_by h evs"

fun direct_by :: "launch_h \<Rightarrow> (int \<times> string option) list \<Rightarrow> ulong" where
  "direct_by h [] = 0"
| "direct_by h (ev # evs) = direct_code h (fst ev) OR direct_by h evs"

section \<open>Properties\<close>

subsection \<open>multi_bits_set\<close>

text \<open>
  \<open>v & (v - 1)\<close> clears the lowest set bit of \<open>v\<close>: it is zero exactly for zero and
  the powers of two. The proof goes through the natural numbers, by parity.
\<close>

lemma nat_and_pred_zero:
  fixes n :: nat
  assumes "0 < n" and "n AND (n - 1) = 0"
  shows "\<exists>k. n = 2 ^ k"
  using assms
proof (induction n rule: less_induct)
  case (less n)
  show ?case
  proof (cases "even n")
    case True
    then obtain m where m: "n = 2 * m" by (auto elim: evenE)
    with less.prems have mpos: "0 < m" by simp
    have pred: "n - 1 = 2 * (m - 1) + 1" using m mpos by simp
    have "n AND (n - 1) = 2 * (m AND (m - 1))"
      unfolding pred unfolding m
      by (subst and_nat_rec) simp
    with less.prems have "m AND (m - 1) = 0" by simp
    moreover have "m < n" using m mpos by simp
    ultimately obtain k where "m = 2 ^ k" using less.IH mpos by blast
    then have "n = 2 ^ Suc k" using m by simp
    then show ?thesis by blast
  next
    case False
    then obtain m where m: "n = 2 * m + 1" by (auto elim: oddE)
    have "n AND (n - 1) = 2 * m"
      unfolding m by (subst and_nat_rec) simp
    with less.prems have "m = 0" by simp
    then have "n = 2 ^ 0" using m by simp
    then show ?thesis by blast
  qed
qed

lemma not_multi_bits_set_cases:
  assumes "\<not> multi_bits_set v"
  shows "v = 0 \<or> (\<exists>k < 64. v = 2 ^ k)"
proof (cases "v = 0")
  case True
  then show ?thesis by simp
next
  case False
  then have pos: "0 < unat v" by (simp add: unat_gt_0)
  have "unat (v AND (v - 1)) = unat v AND unat (v - 1)"
    by (simp add: unsigned_and_eq)
  also have "unat (v - 1) = unat v - 1"
    using False by (simp add: unat_minus_one)
  finally have "unat v AND (unat v - 1) = 0"
    using assms by (simp add: multi_bits_set_def)
  with pos obtain k where k: "unat v = 2 ^ k" using nat_and_pred_zero by blast
  have "unat v < 2 ^ LENGTH(64)" by (rule unsigned_less)
  then have "(2::nat) ^ k < 2 ^ LENGTH(64)" unfolding k .
  then have "k < LENGTH(64)" by (rule power_less_imp_less_exp [rotated]) simp
  then have "k < 64" by simp
  moreover have "v = 2 ^ k"
  proof -
    have "v = word_of_nat (unat v)" by simp
    also have "\<dots> = 2 ^ k" unfolding k by simp
    finally show ?thesis .
  qed
  ultimately show ?thesis by blast
qed

lemma multi_bits_set_power [simp]: "\<not> multi_bits_set (2 ^ k)"
proof -
  have "(2 ^ k :: ulong) AND (2 ^ k - 1) = 0"
    by (rule bit_eqI) (auto simp: bit_and_iff bit_exp_iff bit_mask_iff simp flip: mask_eq_exp_minus_1)
  then show ?thesis by (simp add: multi_bits_set_def)
qed

lemma one_bit_iff: "one_bit v \<longleftrightarrow> (\<exists>k < 64. v = 2 ^ k)"
proof
  assume "one_bit v"
  then show "\<exists>k < 64. v = 2 ^ k"
    using not_multi_bits_set_cases [of v] by (auto simp: one_bit_def)
next
  assume "\<exists>k < 64. v = 2 ^ k"
  then obtain k where "k < 64" "v = 2 ^ k" by blast
  then show "one_bit v" by (simp add: one_bit_def)
qed

lemma one_bit_disjoint:
  assumes "one_bit a" "one_bit b" "a \<noteq> b"
  shows "a AND b = 0"
proof -
  from assms obtain j k where "j < 64" "a = 2 ^ j" "k < 64" "b = 2 ^ k" "j \<noteq> k"
    by (auto simp: one_bit_iff)
  then show ?thesis
    by (auto simp: bit_eq_iff bit_and_iff bit_exp_iff)
qed

lemma multi_bits_set_two:
  assumes "one_bit a" "one_bit b" "a \<noteq> b"
  shows "multi_bits_set (a OR b)"
proof (rule ccontr)
  assume "\<not> multi_bits_set (a OR b)"
  then consider "a OR b = 0" | k where "k < 64" "a OR b = 2 ^ k"
    using not_multi_bits_set_cases by blast
  then show False
  proof cases
    case 1
    then have "a = 0" by (simp add: or_eq_0_iff)
    with assms(1) show False by (simp add: one_bit_def)
  next
    case 2
    from assms obtain i j where ij: "i < 64" "a = 2 ^ i" "j < 64" "b = 2 ^ j" "i \<noteq> j"
      by (auto simp: one_bit_iff)
    have "bit (a OR b) i" "bit (a OR b) j"
      using ij by (simp_all add: bit_or_iff bit_exp_iff)
    then have "i = k" "j = k" using 2 by (simp_all add: bit_exp_iff)
    with ij show False by simp
  qed
qed

subsection \<open>The option table and the parser callback\<close>

lemmas key_defs = RELOCAOUT_def COBO_def DEBUG_def PRELOAD_def FOLLOWFORK_def HIDE_def
  RELOCSO_def NOMPI_def NOCLEAN_def LOCATION_def PUSH_def PULL_def PYTHONPREFIX_def STRIP_def
  PORT_def RELOCEXEC_def RELOCPY_def DISABLE_LOGGING_def SECMUNGE_def SECKEYLMON_def
  SECKEYFILE_def SECNULL_def

lemmas argp_key_defs = ARGP_KEY_ARG_def ARGP_KEY_ARGS_def ARGP_KEY_END_def ARGP_KEY_NO_ARGS_def
  ARGP_KEY_INIT_def ARGP_KEY_FINI_def ARGP_KEY_SUCCESS_def

lemmas group_defs = GROUP_RELOC_def GROUP_PUSHPULL_def GROUP_NETWORK_def GROUP_SEC_def
  GROUP_MISC_def

lemma launch_h_ok_sec:
  assumes "launch_h_ok h"
  shows "0 \<le> OPT_SEC_MUNGE h" "0 \<le> OPT_SEC_KEYLMON h" "0 \<le> OPT_SEC_KEYFILE h"
    "0 \<le> OPT_SEC_NULL h"
    "OPT_SEC_MUNGE h < 16776961" "OPT_SEC_KEYLMON h < 16776961" "OPT_SEC_KEYFILE h < 16776961"
    "OPT_SEC_NULL h < 16776961"
    "distinct [OPT_SEC_MUNGE h, OPT_SEC_KEYLMON h, OPT_SEC_KEYFILE h, OPT_SEC_NULL h]"
  using assms by (simp_all add: launch_h_ok_def security_models_def ARGP_KEY_END_def)

lemma options_snoc: "options h c = butlast (options h c) @ [null_entry]"
  by (simp add: options_def butlast_append)

lemma sec_entries_eq:
  "sec_entries h c =
     (if MUNGE c then [opt_entry ''security-munge'' (SECMUNGE h) None 0 GROUP_SEC] else [])
     @ (if SECLMON c then [opt_entry ''security-lmon'' (SECKEYLMON h) None 0 GROUP_SEC] else [])
     @ (if KEYFILE c then [opt_entry ''security-keyfile'' (SECKEYFILE h) None 0 GROUP_SEC] else [])
     @ (if ENABLE_NULL_ENCRYPTION c
        then [opt_entry ''security-none'' (SECNULL h) None 0 GROUP_SEC] else [])"
  by (simp add: sec_entries_def options_def opt_entry_def null_entry_def group_defs)

lemma options_eq:
  "butlast (options h c) =
     [opt_entry ''reloc-aout'' RELOCAOUT (Some YESNO) 0 GROUP_RELOC,
      opt_entry ''reloc-libs'' RELOCSO (Some YESNO) 0 GROUP_RELOC,
      opt_entry ''reloc-python'' RELOCPY (Some YESNO) 0 GROUP_RELOC,
      opt_entry ''reloc-exec'' RELOCEXEC (Some YESNO) 0 GROUP_RELOC,
      opt_entry ''follow-fork'' FOLLOWFORK (Some YESNO) 0 GROUP_RELOC,
      opt_entry ''push'' PUSH None 0 GROUP_PUSHPULL,
      opt_entry ''pull'' PULL None 0 GROUP_PUSHPULL,
      opt_entry ''cobo'' COBO None 0 GROUP_NETWORK,
      opt_entry ''port'' PORT (Some ''number'') 0 GROUP_NETWORK,
      opt_entry ''location'' LOCATION (Some ''directory'') 0 GROUP_NETWORK]
     @ sec_entries h c
     @ [opt_entry ''python-prefix'' PYTHONPREFIX (Some ''=path'') 0 GROUP_MISC,
        opt_entry ''debug'' DEBUG (Some YESNO) 0 GROUP_MISC,
        opt_entry ''preload'' PRELOAD (Some ''FILE'') 0 GROUP_MISC,
        opt_entry ''strip'' STRIP (Some YESNO) 0 GROUP_MISC,
        opt_entry ''noclean'' NOCLEAN (Some YESNO) 0 GROUP_MISC,
        opt_entry ''disable-logging'' DISABLE_LOGGING None (DISABLE_LOGGING_FLAGS c) GROUP_MISC,
        opt_entry ''no-mpi'' NOMPI None 0 0,
        opt_entry ''no-hide'' HIDE None 0 GROUP_MISC]"
  unfolding sec_entries_eq by (simp add: options_def butlast_append)

lemma sec_entries_mem:
  assumes "e \<in> set (sec_entries h c)"
  shows "key e - 256 \<in> set (security_models h)" "arg e = None" "group e = GROUP_SEC"
  using assms
  by (auto simp: sec_entries_eq security_models_def opt_entry_def key_defs split: if_splits)

lemma sec_entries_distinct:
  assumes "launch_h_ok h"
  shows "distinct (map key (sec_entries h c))"
  using launch_h_ok_sec [OF assms]
  by (simp add: sec_entries_eq opt_entry_def key_defs)

lemma sec_entries_key_ge:
  assumes "launch_h_ok h" "e \<in> set (sec_entries h c)"
  shows "256 \<le> key e" "key e < ARGP_KEY_END"
  using launch_h_ok_sec [OF assms(1)] assms(2)
  by (auto simp: sec_entries_eq opt_entry_def key_defs ARGP_KEY_END_def split: if_splits)

lemma table_keys:
  assumes "launch_h_ok h"
  shows "distinct (map key (butlast (options h c)))"
    and "\<forall>e \<in> set (butlast (options h c)). key e \<noteq> 0"
proof -
  have ge: "\<forall>e \<in> set (sec_entries h c). 256 \<le> key e"
    using sec_entries_key_ge [OF assms] by blast
  show "distinct (map key (butlast (options h c)))"
    unfolding options_eq using sec_entries_distinct [OF assms, of c] ge
    by (auto simp: opt_entry_def key_defs)
  show "\<forall>e \<in> set (butlast (options h c)). key e \<noteq> 0"
    unfolding options_eq using ge
    by (auto simp: opt_entry_def key_defs)
qed

lemma find_entry_absent:
  "\<forall>e \<in> set es. key e \<noteq> k \<and> key e \<noteq> 0 \<Longrightarrow> find_entry (es @ [null_entry]) k = null_entry"
  by (induction es) (auto simp: null_entry_def)

lemma find_entry_present:
  "distinct (map key es) \<Longrightarrow> \<forall>e \<in> set es. key e \<noteq> 0 \<Longrightarrow> e \<in> set es
     \<Longrightarrow> find_entry (es @ [null_entry]) (key e) = e"
  by (induction es) auto

lemma find_entry_table:
  assumes "launch_h_ok h" and "e \<in> set (butlast (options h c))"
  shows "find_entry (options h c) (key e) = e"
  using find_entry_present [OF table_keys [OF assms(1)] assms(2)]
  by (subst options_snoc) simp

lemma find_entry_special:
  assumes "launch_h_ok h"
    and "k = ARGP_KEY_ARG \<or> ARGP_KEY_END \<le> k"
  shows "find_entry (options h c) k = null_entry"
proof -
  have "\<forall>e \<in> set (sec_entries h c). key e \<noteq> k \<and> key e \<noteq> 0"
    using sec_entries_key_ge [OF assms(1)] assms(2) by (fastforce simp: ARGP_KEY_ARG_def)
  then have "\<forall>e \<in> set (butlast (options h c)). key e \<noteq> k \<and> key e \<noteq> 0"
    unfolding options_eq using assms(2)
    by (auto simp: opt_entry_def key_defs argp_key_defs)
  then show ?thesis
    by (subst options_snoc) (rule find_entry_absent)
qed

lemma option_eventE:
  assumes "launch_h_ok h" "option_event h c (k, a)"
  obtains e where "e \<in> set (butlast (options h c))" "key e = k" "arg e = None \<longleftrightarrow> a = None"
    "find_entry (options h c) k = e"
proof -
  from assms(2) obtain e where e: "e \<in> set (butlast (options h c))" "key e = k"
    "arg e = None \<longleftrightarrow> a = None"
    by (auto simp: option_event_def list_ex_iff)
  with find_entry_table [OF assms(1) e(1)] that show thesis by simp
qed

lemma parse_sec_entry:
  assumes ok: "launch_h_ok h" and e: "e \<in> set (sec_entries h c)" and nd: "\<not> done g"
  shows "parse h c (key e) a st g = Inr (0, g\<lparr>sec_model := key e - 256\<rparr>)"
proof -
  have mem: "e \<in> set (butlast (options h c))" using e by (simp add: options_eq)
  have f: "find_entry (options h c) (key e) = e" by (rule find_entry_table [OF ok mem])
  have ge: "256 \<le> key e" "key e < ARGP_KEY_END" using sec_entries_key_ge [OF ok e] by auto
  have code: "opt_key_to_code h (key e) = 0"
    using ge by (simp add: opt_key_to_code_def key_defs)
  show ?thesis
    using ge nd sec_entries_mem(2,3) [OF e]
    by (simp add: parse_def f code key_defs YESNO_def Let_def ARGP_KEY_END_def)
qed

lemma sec_key_codes:
  assumes "launch_h_ok h" "e \<in> set (sec_entries h c)"
  shows "enable_code h (key e, a) = 0" "disable_code h (key e, a) = 0" "direct_code h (key e) = 0"
    "key e \<noteq> PORT" "key e \<noteq> PRELOAD"
  using sec_entries_key_ge [OF assms]
  by (simp_all add: enable_code_def disable_code_def direct_code_def yesno_key_def
      opt_key_to_code_def key_defs)

lemma find_entry_key:
  "launch_h_ok h \<Longrightarrow> e \<in> set (butlast (options h c)) \<Longrightarrow> key e = k
     \<Longrightarrow> find_entry (options h c) k = e"
  using find_entry_table by blast

lemma find_entry_plain:
  assumes ok: "launch_h_ok h"
  shows "find_entry (options h c) RELOCAOUT = opt_entry ''reloc-aout'' RELOCAOUT (Some YESNO) 0 GROUP_RELOC"
    and "find_entry (options h c) RELOCSO = opt_entry ''reloc-libs'' RELOCSO (Some YESNO) 0 GROUP_RELOC"
    and "find_entry (options h c) RELOCPY = opt_entry ''reloc-python'' RELOCPY (Some YESNO) 0 GROUP_RELOC"
    and "find_entry (options h c) RELOCEXEC = opt_entry ''reloc-exec'' RELOCEXEC (Some YESNO) 0 GROUP_RELOC"
    and "find_entry (options h c) FOLLOWFORK = opt_entry ''follow-fork'' FOLLOWFORK (Some YESNO) 0 GROUP_RELOC"
    and "find_entry (options h c) PUSH = opt_entry ''push'' PUSH None 0 GROUP_PUSHPULL"
    and "find_entry (options h c) PULL = opt_entry ''pull'' PULL None 0 GROUP_PUSHPULL"
    and "find_entry (options h c) COBO = opt_entry ''cobo'' COBO None 0 GROUP_NETWORK"
    and "find_entry (options h c) PORT = opt_entry ''port'' PORT (Some ''number'') 0 GROUP_NETWORK"
    and "find_entry (options h c) LOCATION = opt_entry ''location'' LOCATION (Some ''directory'') 0 GROUP_NETWORK"
    and "find_entry (options h c) PYTHONPREFIX = opt_entry ''python-prefix'' PYTHONPREFIX (Some ''=path'') 0 GROUP_MISC"
    and "find_entry (options h c) DEBUG = opt_entry ''debug'' DEBUG (Some YESNO) 0 GROUP_MISC"
    and "find_entry (options h c) PRELOAD = opt_entry ''preload'' PRELOAD (Some ''FILE'') 0 GROUP_MISC"
    and "find_entry (options h c) STRIP = opt_entry ''strip'' STRIP (Some YESNO) 0 GROUP_MISC"
    and "find_entry (options h c) NOCLEAN = opt_entry ''noclean'' NOCLEAN (Some YESNO) 0 GROUP_MISC"
    and "find_entry (options h c) DISABLE_LOGGING = opt_entry ''disable-logging'' DISABLE_LOGGING None (DISABLE_LOGGING_FLAGS c) GROUP_MISC"
    and "find_entry (options h c) NOMPI = opt_entry ''no-mpi'' NOMPI None 0 0"
    and "find_entry (options h c) HIDE = opt_entry ''no-hide'' HIDE None 0 GROUP_MISC"
  by (rule find_entry_key [OF ok], simp add: options_eq, simp add: opt_entry_def)+

lemma launch_h_ok_codes:
  assumes "launch_h_ok h" "v \<in> set (option_codes h)"
  shows "one_bit v" "v \<noteq> 0"
  using assms by (auto simp: launch_h_ok_def list_all_iff one_bit_def)

lemma opt_key_to_code_keys [simp]:
  "opt_key_to_code h RELOCAOUT = OPT_RELOCAOUT h"
  "opt_key_to_code h COBO = OPT_COBO h"
  "opt_key_to_code h DEBUG = OPT_DEBUG h"
  "opt_key_to_code h PRELOAD = OPT_PRELOAD h"
  "opt_key_to_code h FOLLOWFORK = OPT_FOLLOWFORK h"
  "opt_key_to_code h RELOCSO = OPT_RELOCSO h"
  "opt_key_to_code h PUSH = OPT_PUSH h"
  "opt_key_to_code h PULL = OPT_PULL h"
  "opt_key_to_code h STRIP = OPT_STRIP h"
  "opt_key_to_code h RELOCEXEC = OPT_RELOCEXEC h"
  "opt_key_to_code h RELOCPY = OPT_RELOCPY h"
  "opt_key_to_code h NOCLEAN = OPT_NOCLEAN h"
  "opt_key_to_code h PORT = 0"
  "opt_key_to_code h LOCATION = 0"
  "opt_key_to_code h PYTHONPREFIX = 0"
  "opt_key_to_code h DISABLE_LOGGING = 0"
  "opt_key_to_code h NOMPI = 0"
  "opt_key_to_code h HIDE = 0"
  by (simp_all add: opt_key_to_code_def key_defs)

lemma parse_yesno:
  assumes ok: "launch_h_ok h" and k: "yesno_key k" and nd: "\<not> done g"
  shows "parse h c k a st g =
    (case a of
       None \<Rightarrow> Inl NullArgument
     | Some s \<Rightarrow>
         if s = ''yes'' \<or> s = ''y'' then
           Inr (0, g\<lparr>enabled_opts := enabled_opts g OR opt_key_to_code h k\<rparr>)
         else if s = ''no'' \<or> s = ''n'' then
           Inr (0, g\<lparr>disabled_opts := disabled_opts g OR opt_key_to_code h k\<rparr>)
         else Inl (MustBeYesOrNo (name (find_entry (options h c) k))))"
proof -
  have "arg (find_entry (options h c) k) = Some YESNO"
    using k by (auto simp: yesno_key_def find_entry_plain [OF ok] opt_entry_def)
  then show ?thesis using nd by (simp add: parse_def Let_def)
qed

lemma parse_flag:
  assumes ok: "launch_h_ok h" and k: "k = PUSH \<or> k = PULL \<or> k = COBO" and nd: "\<not> done g"
  shows "parse h c k a st g = Inr (0, g\<lparr>enabled_opts := enabled_opts g OR opt_key_to_code h k\<rparr>)"
proof -
  have "OPT_PUSH h \<in> set (option_codes h)" "OPT_PULL h \<in> set (option_codes h)"
    "OPT_COBO h \<in> set (option_codes h)"
    by (simp_all add: option_codes_def)
  then have "OPT_PUSH h \<noteq> 0" "OPT_PULL h \<noteq> 0" "OPT_COBO h \<noteq> 0"
    using launch_h_ok_codes(2) [OF ok] by blast+
  then have nz: "opt_key_to_code h k \<noteq> 0"
    using k by auto
  have "arg (find_entry (options h c) k) = None" "key (find_entry (options h c) k) = k"
    using k by (auto simp: find_entry_plain [OF ok] opt_entry_def)
  moreover have "k \<noteq> 0" using k by (auto simp: key_defs)
  ultimately have "arg (find_entry (options h c) k) = None"
    "key (find_entry (options h c) k) \<noteq> 0" by simp_all
  then show ?thesis using nd nz by (simp add: parse_def Let_def)
qed

lemma parse_preload:
  assumes ok: "launch_h_ok h" and nd: "\<not> done g"
  shows "parse h c PRELOAD a st g =
    Inr (0, g\<lparr>enabled_opts := enabled_opts g OR OPT_PRELOAD h, preload_file := a\<rparr>)"
  unfolding parse_def Let_def find_entry_plain [OF ok] opt_key_to_code_keys
  using nd by (simp add: opt_entry_def YESNO_def key_defs group_defs argp_key_defs)

lemma parse_port:
  assumes ok: "launch_h_ok h" and nd: "\<not> done g"
  shows "parse h c PORT a st g =
    (case a of
       None \<Rightarrow> Inl NullArgument
     | Some s \<Rightarrow>
         if (word_of_int (atoi s) :: uint) = 0 then Inl PortZeroValue
         else Inr (0, g\<lparr>spindle_port := word_of_int (atoi s)\<rparr>))"
  unfolding parse_def Let_def find_entry_plain [OF ok] opt_key_to_code_keys
  using nd by (simp add: opt_entry_def YESNO_def key_defs group_defs argp_key_defs)

lemma parse_location:
  assumes ok: "launch_h_ok h" and nd: "\<not> done g"
  shows "parse h c LOCATION a st g =
    (case a of None \<Rightarrow> Inl NullArgument | Some s \<Rightarrow> Inr (0, g\<lparr>spindle_location := s\<rparr>))"
  unfolding parse_def Let_def find_entry_plain [OF ok] opt_key_to_code_keys
  using nd by (simp add: opt_entry_def YESNO_def key_defs group_defs argp_key_defs)

lemma parse_disable_logging:
  assumes ok: "launch_h_ok h" and nd: "\<not> done g"
  shows "parse h c DISABLE_LOGGING a st g = Inr (0, g\<lparr>logging_enabled := False\<rparr>)"
  unfolding parse_def Let_def find_entry_plain [OF ok] opt_key_to_code_keys
  using nd by (simp add: opt_entry_def YESNO_def key_defs group_defs argp_key_defs)

lemma parse_nompi:
  assumes ok: "launch_h_ok h" and nd: "\<not> done g"
  shows "parse h c NOMPI a st g = Inr (0, g\<lparr>use_mpi := False, opts := opts g OR OPT_NOMPI h\<rparr>)"
  unfolding parse_def Let_def find_entry_plain [OF ok] opt_key_to_code_keys
  using nd by (simp add: opt_entry_def YESNO_def key_defs group_defs argp_key_defs)

lemma parse_hide:
  assumes ok: "launch_h_ok h" and nd: "\<not> done g"
  shows "parse h c HIDE a st g = Inr (0, g\<lparr>hide_fd := False, opts := opts g OR OPT_NOHIDE h\<rparr>)"
  unfolding parse_def Let_def find_entry_plain [OF ok] opt_key_to_code_keys
  using nd by (simp add: opt_entry_def YESNO_def key_defs group_defs argp_key_defs)

lemma parse_pythonprefix:
  assumes ok: "launch_h_ok h" and nd: "\<not> done g"
  shows "parse h c PYTHONPREFIX a st g = Inr (0, g\<lparr>user_python_prefixes := a\<rparr>)"
  unfolding parse_def Let_def find_entry_plain [OF ok] opt_key_to_code_keys
  using nd by (simp add: opt_entry_def YESNO_def key_defs group_defs argp_key_defs)

lemma yesno_key_simps [simp]:
  "yesno_key RELOCAOUT" "yesno_key RELOCSO" "yesno_key RELOCPY" "yesno_key RELOCEXEC"
  "yesno_key FOLLOWFORK" "yesno_key DEBUG" "yesno_key STRIP" "yesno_key NOCLEAN"
  "\<not> yesno_key PUSH" "\<not> yesno_key PULL" "\<not> yesno_key COBO" "\<not> yesno_key PRELOAD"
  "\<not> yesno_key PORT" "\<not> yesno_key LOCATION" "\<not> yesno_key PYTHONPREFIX"
  "\<not> yesno_key DISABLE_LOGGING" "\<not> yesno_key NOMPI" "\<not> yesno_key HIDE"
  by (simp_all add: yesno_key_def key_defs)

lemma direct_code_simps [simp]:
  "direct_code h NOMPI = OPT_NOMPI h" "direct_code h HIDE = OPT_NOHIDE h"
  "yesno_key k \<Longrightarrow> direct_code h k = 0"
  "direct_code h PUSH = 0" "direct_code h PULL = 0" "direct_code h COBO = 0"
  "direct_code h PRELOAD = 0" "direct_code h PORT = 0" "direct_code h LOCATION = 0"
  "direct_code h PYTHONPREFIX = 0" "direct_code h DISABLE_LOGGING = 0"
  by (auto simp: direct_code_def yesno_key_def key_defs)

lemma yesno_key_not_port: "yesno_key k \<Longrightarrow> k \<noteq> PORT"
  by (auto simp: yesno_key_def key_defs)

lemma plain_entry_keys:
  assumes "e \<in> set (butlast (options h c))" "e \<notin> set (sec_entries h c)"
  shows "yesno_key (key e) \<or> key e = PUSH \<or> key e = PULL \<or> key e = COBO \<or> key e = PRELOAD
    \<or> key e = PORT \<or> key e = LOCATION \<or> key e = PYTHONPREFIX \<or> key e = DISABLE_LOGGING
    \<or> key e = NOMPI \<or> key e = HIDE"
  using assms unfolding options_eq by (auto simp: opt_entry_def)

lemma parse_option_event:
  assumes ok: "launch_h_ok h" and ev: "option_event h c (k, a)" and nd: "\<not> done g"
    and p: "parse h c k a st g = Inr (rc, g')"
  shows "rc = 0 \<and> \<not> done g'
    \<and> enabled_opts g' = enabled_opts g OR enable_code h (k, a)
    \<and> disabled_opts g' = disabled_opts g OR disable_code h (k, a)
    \<and> opts g' = opts g OR direct_code h k
    \<and> (sec_model g' = sec_model g \<or> sec_model g' \<in> set (security_models h))
    \<and> (k \<noteq> PORT \<longrightarrow> spindle_port g' = spindle_port g)"
proof -
  from ok ev obtain e where e: "e \<in> set (butlast (options h c))" "key e = k"
    "arg e = None \<longleftrightarrow> a = None" "find_entry (options h c) k = e"
    by (rule option_eventE)
  show ?thesis
  proof (cases "e \<in> set (sec_entries h c)")
    case True
    from parse_sec_entry [OF ok True nd, of a st] p e(2)
    have "rc = 0" "g' = g\<lparr>sec_model := k - 256\<rparr>" by simp_all
    then show ?thesis
      using nd sec_key_codes [OF ok True] sec_entries_mem(1) [OF True] e(2) by auto
  next
    case False
    have keys: "yesno_key k \<or> (k = PUSH \<or> k = PULL \<or> k = COBO) \<or> k = PRELOAD
      \<or> k = PORT \<or> k = LOCATION \<or> k = PYTHONPREFIX \<or> k = DISABLE_LOGGING
      \<or> k = NOMPI \<or> k = HIDE"
      using plain_entry_keys [OF e(1) False] unfolding e(2) by simp
    have yesno: ?thesis if k: "yesno_key k"
    proof -
      from p obtain s where s: "a = Some s"
        unfolding parse_yesno [OF ok k nd] by (cases a) simp_all
      have port: "k \<noteq> PORT" by (rule yesno_key_not_port [OF k])
      consider (yes) "s = ''yes'' \<or> s = ''y''" | (no) "s = ''no'' \<or> s = ''n''"
        | (other) "\<not> (s = ''yes'' \<or> s = ''y'')" "\<not> (s = ''no'' \<or> s = ''n'')"
        by blast
      then show ?thesis
      proof cases
        case yes
        with p have "rc = 0" "g' = g\<lparr>enabled_opts := enabled_opts g OR opt_key_to_code h k\<rparr>"
          unfolding parse_yesno [OF ok k nd] s by simp_all
        moreover have "enable_code h (k, a) = opt_key_to_code h k" "disable_code h (k, a) = 0"
          using yes k s by (auto simp: enable_code_def disable_code_def)
        ultimately show ?thesis using nd k port by simp
      next
        case no
        then have ny: "\<not> (s = ''yes'' \<or> s = ''y'')" by auto
        with no p have "rc = 0" "g' = g\<lparr>disabled_opts := disabled_opts g OR opt_key_to_code h k\<rparr>"
          unfolding parse_yesno [OF ok k nd] s by simp_all
        moreover have "enable_code h (k, a) = 0" "disable_code h (k, a) = opt_key_to_code h k"
          using no ny k s by (auto simp: enable_code_def disable_code_def)
        ultimately show ?thesis using nd k port by simp
      next
        case other
        with p show ?thesis unfolding parse_yesno [OF ok k nd] s by simp
      qed
    qed
    have flag: ?thesis if k: "k = PUSH \<or> k = PULL \<or> k = COBO"
    proof -
      from p have "rc = 0" "g' = g\<lparr>enabled_opts := enabled_opts g OR opt_key_to_code h k\<rparr>"
        unfolding parse_flag [OF ok k nd] by simp_all
      moreover have "enable_code h (k, a) = opt_key_to_code h k" "disable_code h (k, a) = 0"
        "direct_code h k = 0"
        using k by (auto simp: enable_code_def disable_code_def)
      moreover have "k \<noteq> PORT" using k by (auto simp: key_defs)
      ultimately show ?thesis using nd by simp
    qed
    have codes0: "enable_code h (k, a) = 0" "disable_code h (k, a) = 0"
      if "k = PORT \<or> k = LOCATION \<or> k = PYTHONPREFIX \<or> k = DISABLE_LOGGING \<or> k = NOMPI \<or> k = HIDE"
      using that by (auto simp: enable_code_def disable_code_def)
    have preload: ?thesis if k: "k = PRELOAD"
    proof -
      from p have "rc = 0" "g' = g\<lparr>enabled_opts := enabled_opts g OR OPT_PRELOAD h, preload_file := a\<rparr>"
        unfolding k parse_preload [OF ok nd] by simp_all
      moreover have "enable_code h (k, a) = OPT_PRELOAD h" "disable_code h (k, a) = 0"
        "direct_code h k = 0"
        using k by (auto simp: enable_code_def disable_code_def)
      moreover have "k \<noteq> PORT" using k by (auto simp: key_defs)
      ultimately show ?thesis using nd by simp
    qed
    have port: ?thesis if k: "k = PORT"
    proof -
      from p obtain s where s: "a = Some s"
        unfolding k parse_port [OF ok nd] by (cases a) simp_all
      from p have "rc = 0" "g' = g\<lparr>spindle_port := word_of_int (atoi s)\<rparr>"
        unfolding k parse_port [OF ok nd] s by (simp_all split: if_splits)
      then show ?thesis using nd codes0 k by simp
    qed
    have nport: "LOCATION \<noteq> PORT" "PYTHONPREFIX \<noteq> PORT" "DISABLE_LOGGING \<noteq> PORT"
      by (simp_all add: key_defs)
    have location: ?thesis if k: "k = LOCATION"
    proof -
      from p obtain s where s: "a = Some s"
        unfolding k parse_location [OF ok nd] by (cases a) simp_all
      from p have "rc = 0" "g' = g\<lparr>spindle_location := s\<rparr>"
        unfolding k parse_location [OF ok nd] s by simp_all
      then show ?thesis using nd codes0 k nport by simp
    qed
    have python: ?thesis if k: "k = PYTHONPREFIX"
    proof -
      from p have "rc = 0" "g' = g\<lparr>user_python_prefixes := a\<rparr>"
        unfolding k parse_pythonprefix [OF ok nd] by simp_all
      then show ?thesis using nd codes0 k nport by simp
    qed
    have logging: ?thesis if k: "k = DISABLE_LOGGING"
    proof -
      from p have "rc = 0" "g' = g\<lparr>logging_enabled := False\<rparr>"
        unfolding k parse_disable_logging [OF ok nd] by simp_all
      then show ?thesis using nd codes0 k nport by simp
    qed
    have nompi: ?thesis if k: "k = NOMPI"
    proof -
      from p have "rc = 0" "g' = g\<lparr>use_mpi := False, opts := opts g OR OPT_NOMPI h\<rparr>"
        unfolding k parse_nompi [OF ok nd] by simp_all
      moreover have "k \<noteq> PORT" using k by (auto simp: key_defs)
      ultimately show ?thesis using nd codes0 k by simp
    qed
    have hide: ?thesis if k: "k = HIDE"
    proof -
      from p have "rc = 0" "g' = g\<lparr>hide_fd := False, opts := opts g OR OPT_NOHIDE h\<rparr>"
        unfolding k parse_hide [OF ok nd] by simp_all
      moreover have "k \<noteq> PORT" using k by (auto simp: key_defs)
      ultimately show ?thesis using nd codes0 k by simp
    qed
    from keys show ?thesis
    proof (elim disjE, goal_cases)
      case 1 then show ?case by (rule yesno)
    next
      case 2 then show ?case by (intro flag) simp
    next
      case 3 then show ?case by (intro flag) simp
    next
      case 4 then show ?case by (intro flag) simp
    next
      case 5 then show ?case by (rule preload)
    next
      case 6 then show ?case by (rule port)
    next
      case 7 then show ?case by (rule location)
    next
      case 8 then show ?case by (rule python)
    next
      case 9 then show ?case by (rule logging)
    next
      case 10 then show ?case by (rule nompi)
    next
      case 11 then show ?case by (rule hide)
    qed
  qed
qed

lemma scan_option_events:
  assumes ok: "launch_h_ok h"
  shows "list_all (option_event h c) evs \<Longrightarrow> \<not> done g \<Longrightarrow> scan h c st evs g = Inr g'
    \<Longrightarrow> \<not> done g'
      \<and> enabled_opts g' = enabled_opts g OR enabled_by h evs
      \<and> disabled_opts g' = disabled_opts g OR disabled_by h evs
      \<and> opts g' = opts g OR direct_by h evs
      \<and> (sec_model g' = sec_model g \<or> sec_model g' \<in> set (security_models h))
      \<and> ((\<forall>a. (PORT, a) \<notin> set evs) \<longrightarrow> spindle_port g' = spindle_port g)"
proof (induction evs arbitrary: g)
  case Nil
  then show ?case by simp
next
  case (Cons ev evs)
  obtain k a where ev: "ev = (k, a)" by (cases ev)
  from Cons.prems(3) obtain rc g1 where p: "parse h c k a st g = Inr (rc, g1)"
    and rest: "scan h c st evs g1 = Inr g'" and rc: "rc = 0"
    by (auto simp: ev and_then_def split: sum.splits if_splits)
  from Cons.prems(1) have e1: "option_event h c (k, a)" and es: "list_all (option_event h c) evs"
    by (simp_all add: ev)
  note step = parse_option_event [OF ok e1 Cons.prems(2) p]
  from step have nd1: "\<not> done g1" by simp
  note ih = Cons.IH [OF es nd1 rest]
  show ?case
    using step ih by (auto simp: ev or.assoc)
qed

lemma null_entry_simps [simp]:
  "key null_entry = 0" "arg null_entry = None" "group null_entry = 0" "name null_entry = None"
  by (simp_all add: null_entry_def)

lemma parse_done: "done g \<Longrightarrow> k \<noteq> ARGP_KEY_END \<Longrightarrow> parse h c k a st g = Inr (0, g)"
  by (simp add: parse_def)

lemma parse_INIT:
  assumes ok: "launch_h_ok h"
  shows "parse h c ARGP_KEY_INIT a st g = Inr (0, g)"
proof -
  have f: "find_entry (options h c) ARGP_KEY_INIT = null_entry"
    by (intro find_entry_special [OF ok]) (simp add: argp_key_defs)
  have c: "opt_key_to_code h ARGP_KEY_INIT = 0"
    by (simp add: opt_key_to_code_def key_defs argp_key_defs)
  show ?thesis
    unfolding parse_def Let_def f c
    by (simp add: key_defs argp_key_defs group_defs)
qed

lemma parse_SUCCESS:
  assumes ok: "launch_h_ok h"
  shows "parse h c ARGP_KEY_SUCCESS a st g = Inr (0, g)"
proof -
  have f: "find_entry (options h c) ARGP_KEY_SUCCESS = null_entry"
    by (intro find_entry_special [OF ok]) (simp add: argp_key_defs)
  have c: "opt_key_to_code h ARGP_KEY_SUCCESS = 0"
    by (simp add: opt_key_to_code_def key_defs argp_key_defs)
  show ?thesis
    unfolding parse_def Let_def f c
    by (simp add: key_defs argp_key_defs group_defs)
qed

lemma parse_FINI:
  assumes ok: "launch_h_ok h"
  shows "parse h c ARGP_KEY_FINI a st g = Inr (0, g)"
proof -
  have f: "find_entry (options h c) ARGP_KEY_FINI = null_entry"
    by (intro find_entry_special [OF ok]) (simp add: argp_key_defs)
  have c: "opt_key_to_code h ARGP_KEY_FINI = 0"
    by (simp add: opt_key_to_code_def key_defs argp_key_defs)
  show ?thesis
    unfolding parse_def Let_def f c
    by (simp add: key_defs argp_key_defs group_defs)
qed

lemma parse_ARG:
  assumes ok: "launch_h_ok h" and nd: "\<not> done g"
  shows "parse h c ARGP_KEY_ARG a st g =
    (if argc st = 0 then Inr (0, g) else Inr (ARGP_ERR_UNKNOWN, g))"
proof -
  have f: "find_entry (options h c) ARGP_KEY_ARG = null_entry"
    by (intro find_entry_special [OF ok]) simp
  have c: "opt_key_to_code h ARGP_KEY_ARG = 0"
    by (simp add: opt_key_to_code_def key_defs argp_key_defs)
  show ?thesis
    unfolding parse_def Let_def f c using nd
    by (simp add: key_defs argp_key_defs group_defs)
qed

lemma parse_ARGS:
  assumes ok: "launch_h_ok h" and nd: "\<not> done g"
  shows "parse h c ARGP_KEY_ARGS a st g =
    Inr (0, g\<lparr>mpi_argv := drop (nat (next st)) (argv st), mpi_argc := argc st - next st,
               done := True\<rparr>)"
proof -
  have f: "find_entry (options h c) ARGP_KEY_ARGS = null_entry"
    by (intro find_entry_special [OF ok]) (simp add: argp_key_defs)
  have c: "opt_key_to_code h ARGP_KEY_ARGS = 0"
    by (simp add: opt_key_to_code_def key_defs argp_key_defs)
  show ?thesis
    unfolding parse_def Let_def f c using nd
    by (simp add: key_defs argp_key_defs group_defs)
qed

lemma parse_NO_ARGS:
  assumes ok: "launch_h_ok h" and nd: "\<not> done g"
  shows "parse h c ARGP_KEY_NO_ARGS a st g = Inl NoMPICommandLine"
proof -
  have f: "find_entry (options h c) ARGP_KEY_NO_ARGS = null_entry"
    by (intro find_entry_special [OF ok]) (simp add: argp_key_defs)
  have c: "opt_key_to_code h ARGP_KEY_NO_ARGS = 0"
    by (simp add: opt_key_to_code_def key_defs argp_key_defs)
  show ?thesis
    unfolding parse_def Let_def f c using nd
    by (simp add: key_defs argp_key_defs group_defs)
qed

text \<open>The \<open>ARGP_KEY_END\<close> branch, whatever the state of \<open>done\<close>.\<close>

lemma parse_END:
  assumes ok: "launch_h_ok h"
  shows "parse h c ARGP_KEY_END a st g =
    (if enabled_opts g AND disabled_opts g \<noteq> 0 then Inl SameOptionEnabledAndDisabled
     else if multi_bits_set (enabled_opts g AND all_network_opts h) then Inl MultipleNetworkOptions
     else if multi_bits_set (enabled_opts g AND all_pushpull_opts h) then Inl BothPushAndPull
     else Inr (0, g\<lparr>sec_model := (if sec_model g = - 1 then default_sec h c else sec_model g),
       opts :=
         OPT_SET_SEC h
           (opts g
            OR (if enabled_opts g AND all_network_opts h \<noteq> 0
                then enabled_opts g AND all_network_opts h else default_network_opts h)
            OR (if enabled_opts g AND all_pushpull_opts h \<noteq> 0
                then enabled_opts g AND all_pushpull_opts h else default_pushpull_opts h)
            OR (all_reloc_opts h AND NOT (disabled_opts g)
                  AND (enabled_opts g OR default_reloc_opts h)))
           (if sec_model g = - 1 then default_sec h c else sec_model g)
         OR (all_misc_opts h AND NOT (disabled_opts g)
               AND (enabled_opts g OR default_misc_opts h))\<rparr>))"
proof -
  have f: "find_entry (options h c) ARGP_KEY_END = null_entry"
    by (intro find_entry_special [OF ok]) simp
  have c: "opt_key_to_code h ARGP_KEY_END = 0"
    by (simp add: opt_key_to_code_def key_defs argp_key_defs)
  have k: "ARGP_KEY_END \<noteq> DISABLE_LOGGING" "ARGP_KEY_END \<noteq> NOMPI" "ARGP_KEY_END \<noteq> HIDE"
    "ARGP_KEY_END \<noteq> ARGP_KEY_ARG" "ARGP_KEY_END \<noteq> PYTHONPREFIX"
    "ARGP_KEY_END \<noteq> ARGP_KEY_ARGS" "0 \<noteq> PRELOAD" "0 \<noteq> PORT" "0 \<noteq> LOCATION"
    "0 \<noteq> GROUP_SEC"
    by (simp_all add: key_defs argp_key_defs group_defs)
  show ?thesis
    unfolding parse_def Let_def f c using k
    by (simp add: or.assoc)
qed

lemma argp_parse_options:
  assumes ok: "launch_h_ok h" and evs: "list_all (option_event h c) evs" and nd: "\<not> done g"
  shows "argp_parse h c pre evs cmd g =
    and_then (scan h c \<lparr>argc = int (length (pre @ cmd)), argv = pre @ cmd, next = int (length pre)\<rparr> evs g)
      (\<lambda>g2. case cmd of
         [] \<Rightarrow> Inl NoMPICommandLine
       | w # ws \<Rightarrow>
           and_then
             (parse h c ARGP_KEY_END None
                \<lparr>argc = int (length (pre @ cmd)), argv = pre @ cmd, next = int (length (pre @ cmd))\<rparr>
                (g2\<lparr>mpi_argv := cmd, mpi_argc := int (length cmd), done := True\<rparr>))
             (\<lambda>(rc, g4). Inr g4))"
proof -
  define st where "st = \<lparr>argc = int (length (pre @ cmd)), argv = pre @ cmd, next = int (length pre)\<rparr>"
  show ?thesis
  proof (cases "scan h c st evs g")
    case (Inl e)
    then show ?thesis
      by (simp add: argp_parse_def Let_def parse_INIT [OF ok] and_then_def st_def)
  next
    case (Inr g2)
    from scan_option_events [OF ok evs nd Inr] have nd2: "\<not> done g2" by simp
    show ?thesis
    proof (cases cmd)
      case Nil
      then show ?thesis
        using Inr nd2
        by (simp add: argp_parse_def Let_def parse_INIT [OF ok] and_then_def st_def
            parse_NO_ARGS [OF ok])
    next
      case (Cons w ws)
      have d: "done (g2\<lparr>mpi_argv := cmd, mpi_argc := int (length cmd), done := True\<rparr>)"
        by simp
      have k: "ARGP_KEY_SUCCESS \<noteq> ARGP_KEY_END" "ARGP_KEY_FINI \<noteq> ARGP_KEY_END"
        "ARGP_ERR_UNKNOWN \<noteq> 0"
        by (simp_all add: argp_key_defs ARGP_ERR_UNKNOWN_def)
      show ?thesis
        using Inr nd2 k unfolding Cons st_def
        by (simp add: argp_parse_def Let_def parse_INIT [OF ok] and_then_def
            parse_ARG [OF ok] parse_ARGS [OF ok] parse_SUCCESS [OF ok] parse_FINI [OF ok]
            split: sum.splits prod.splits)
    qed
  qed
qed

lemma parse_state_irrelevant:
  assumes "k \<noteq> ARGP_KEY_ARG" "k \<noteq> ARGP_KEY_ARGS"
  shows "parse h c k a st g = parse h c k a st' g"
  using assms by (simp add: parse_def Let_def split del: if_split cong: if_cong)

lemma option_event_key:
  assumes ok: "launch_h_ok h" and ev: "option_event h c (k, a)"
  shows "k \<noteq> ARGP_KEY_ARG" "k \<noteq> ARGP_KEY_ARGS"
proof -
  from ok ev obtain e where e: "e \<in> set (butlast (options h c))" "key e = k"
    by (rule option_eventE)
  have "k \<noteq> 0"
    using table_keys(2) [OF ok] e by blast
  moreover have "k < ARGP_KEY_END"
  proof (cases "e \<in> set (sec_entries h c)")
    case True
    then show ?thesis using sec_entries_key_ge(2) [OF ok True] e(2) by simp
  next
    case False
    from plain_entry_keys [OF e(1) False] show ?thesis
      unfolding e(2) by (auto simp: yesno_key_def key_defs argp_key_defs)
  qed
  ultimately show "k \<noteq> ARGP_KEY_ARG" "k \<noteq> ARGP_KEY_ARGS"
    by (simp_all add: argp_key_defs)
qed

lemma scan_state_irrelevant:
  assumes ok: "launch_h_ok h"
  shows "list_all (option_event h c) evs \<Longrightarrow> scan h c st evs g = scan h c st' evs g"
proof (induction evs arbitrary: g)
  case Nil
  show ?case by simp
next
  case (Cons ev evs)
  obtain k a where ev: "ev = (k, a)" by (cases ev)
  from Cons.prems have e1: "option_event h c (k, a)" and es: "list_all (option_event h c) evs"
    by (simp_all add: ev)
  have "parse h c k a st g = parse h c k a st' g"
    by (rule parse_state_irrelevant [OF option_event_key [OF ok e1]])
  then show ?case
    using Cons.IH [OF es] by (simp add: ev and_then_def split: sum.splits)
qed

lemma init_globals_simps [simp]:
  "\<not> done (init_globals c)" "enabled_opts (init_globals c) = 0"
  "disabled_opts (init_globals c) = 0" "opts (init_globals c) = 0"
  "sec_model (init_globals c) = - 1" "spindle_port (init_globals c) = SPINDLE_PORT c"
  "preload_file (init_globals c) = None"
  by (simp_all add: init_globals_def)

section \<open>The claims of the specification\<close>

subsection \<open>C3: conflicting directives\<close>

text \<open>
  C3. Whenever the options scanned leave some bit both in the enabled and in the
  disabled set, the finalize step (the call with \<open>ARGP_KEY_END\<close>) exits with the
  error "Cannot have the same option both enabled and disabled", and the run of
  \<open>argp_parse\<close> on that command line returns no configuration: it ends in this error
  (or, with no command on the line, in the error for the missing command before it).
\<close>

theorem conflicting_directive_is_fatal:
  assumes ok: "launch_h_ok h" and evs: "list_all (option_event h c) evs"
    and scanned: "scan h c st evs (init_globals c) = Inr g"
    and conflict: "enabled_opts g AND disabled_opts g \<noteq> 0"
  shows "parse h c ARGP_KEY_END a st' g = Inl SameOptionEnabledAndDisabled
    \<and> argp_parse h c pre evs cmd (init_globals c)
        = Inl (if cmd = [] then NoMPICommandLine else SameOptionEnabledAndDisabled)"
proof -
  have fin: "parse h c ARGP_KEY_END a' st'' g' = Inl SameOptionEnabledAndDisabled"
    if "enabled_opts g' = enabled_opts g" "disabled_opts g' = disabled_opts g" for a' st'' g'
    using conflict that by (simp add: parse_END [OF ok])
  have s: "scan h c \<lparr>argc = int (length (pre @ cmd)), argv = pre @ cmd, next = int (length pre)\<rparr>
      evs (init_globals c) = Inr g"
    using scanned scan_state_irrelevant [OF ok evs] by metis
  have "argp_parse h c pre evs cmd (init_globals c)
        = Inl (if cmd = [] then NoMPICommandLine else SameOptionEnabledAndDisabled)"
    unfolding argp_parse_options [OF ok evs init_globals_simps(1)] s
    by (cases cmd) (simp_all add: and_then_def fin)
  with fin [of g] show ?thesis by simp
qed

theorem conflicting_directive_is_fatal_witness:
  "launch_h_ok sample_launch_h
   \<and> list_all (option_event sample_launch_h sample_config)
        [(RELOCAOUT, Some ''yes''), (RELOCAOUT, Some ''no'')]
   \<and> argp_parse sample_launch_h sample_config [''spindle'']
        [(RELOCAOUT, Some ''yes''), (RELOCAOUT, Some ''no'')] [''a.out'']
        (init_globals sample_config) = Inl SameOptionEnabledAndDisabled"
proof -
  let ?evs = "[(RELOCAOUT, Some ''yes''), (RELOCAOUT, Some ''no'')]"
  let ?g = "(init_globals sample_config)\<lparr>enabled_opts := 0x80, disabled_opts := 0x80\<rparr>"
  have ok: "launch_h_ok sample_launch_h" by code_simp
  have evs: "list_all (option_event sample_launch_h sample_config) ?evs" by code_simp
  have scanned: "scan sample_launch_h sample_config \<lparr>argc = 0, argv = [], next = 0\<rparr> ?evs
      (init_globals sample_config) = Inr ?g"
    by code_simp
  have conflict: "enabled_opts ?g AND disabled_opts ?g \<noteq> 0" by simp
  from conflicting_directive_is_fatal [OF ok evs scanned conflict, of None
      "\<lparr>argc = 0, argv = [], next = 0\<rparr>" "[''spindle'']" "[''a.out'']"]
  show ?thesis using ok evs by simp
qed

lemma or_twice:
  fixes x :: ulong
  shows "x OR n OR p OR r OR e OR m OR n OR p OR r OR e OR m = x OR n OR p OR r OR e OR m"
  by (rule bit_eqI) (auto simp: bit_or_iff)

lemma parse_END_result:
  assumes ok: "launch_h_ok h" and p: "parse h c ARGP_KEY_END a st g = Inr (rc, g')"
  shows "rc = 0"
    and "enabled_opts g AND disabled_opts g = 0"
    and "\<not> multi_bits_set (enabled_opts g AND all_network_opts h)"
    and "\<not> multi_bits_set (enabled_opts g AND all_pushpull_opts h)"
    and "g' = g\<lparr>sec_model := (if sec_model g = - 1 then default_sec h c else sec_model g),
       opts :=
         OPT_SET_SEC h
           (opts g
            OR (if enabled_opts g AND all_network_opts h \<noteq> 0
                then enabled_opts g AND all_network_opts h else default_network_opts h)
            OR (if enabled_opts g AND all_pushpull_opts h \<noteq> 0
                then enabled_opts g AND all_pushpull_opts h else default_pushpull_opts h)
            OR (all_reloc_opts h AND NOT (disabled_opts g)
                  AND (enabled_opts g OR default_reloc_opts h)))
           (if sec_model g = - 1 then default_sec h c else sec_model g)
         OR (all_misc_opts h AND NOT (disabled_opts g)
               AND (enabled_opts g OR default_misc_opts h))\<rparr>"
proof -
  note e = p [unfolded parse_END [OF ok]]
  from e show c1: "enabled_opts g AND disabled_opts g = 0" by (simp split: if_splits)
  from e c1 show c2: "\<not> multi_bits_set (enabled_opts g AND all_network_opts h)"
    by (simp split: if_splits)
  from e c1 c2 show c3: "\<not> multi_bits_set (enabled_opts g AND all_pushpull_opts h)"
    by (simp split: if_splits)
  from e c1 c2 c3 show "rc = 0" by simp
  from e c1 c2 c3 show "g' = g\<lparr>sec_model := (if sec_model g = - 1 then default_sec h c else sec_model g),
       opts :=
         OPT_SET_SEC h
           (opts g
            OR (if enabled_opts g AND all_network_opts h \<noteq> 0
                then enabled_opts g AND all_network_opts h else default_network_opts h)
            OR (if enabled_opts g AND all_pushpull_opts h \<noteq> 0
                then enabled_opts g AND all_pushpull_opts h else default_pushpull_opts h)
            OR (all_reloc_opts h AND NOT (disabled_opts g)
                  AND (enabled_opts g OR default_reloc_opts h)))
           (if sec_model g = - 1 then default_sec h c else sec_model g)
         OR (all_misc_opts h AND NOT (disabled_opts g)
               AND (enabled_opts g OR default_misc_opts h))\<rparr>"
    by simp
qed

lemma parse_END_idem:
  assumes ok: "launch_h_ok h" and p: "parse h c ARGP_KEY_END a st g = Inr (rc, g')"
  shows "parse h c ARGP_KEY_END a' st' g' = Inr (0, g')"
proof -
  note r = parse_END_result [OF ok p]
  define s where "s = (if sec_model g = - 1 then default_sec h c else sec_model g)"
  have s': "(if s = - 1 then default_sec h c else s) = s"
    by (simp add: s_def)
  have g': "enabled_opts g' = enabled_opts g" "disabled_opts g' = disabled_opts g"
    "sec_model g' = s"
    unfolding r(5) s_def by simp_all
  show ?thesis
    unfolding parse_END [OF ok] g' s'
    using r(2,3,4)
    by (simp add: r(5) OPT_SET_SEC_def s_def [symmetric] or.assoc or_twice)
qed

lemma argp_parse_result:
  assumes ok: "launch_h_ok h" and evs: "list_all (option_event h c) evs" and nd: "\<not> done g0"
    and run: "argp_parse h c pre evs cmd g0 = Inr g"
  obtains g2 rc st' where "scan h c st evs g0 = Inr g2" "cmd \<noteq> []"
    "parse h c ARGP_KEY_END None st'
       (g2\<lparr>mpi_argv := cmd, mpi_argc := int (length cmd), done := True\<rparr>) = Inr (rc, g)"
proof -
  let ?st = "\<lparr>argc = int (length (pre @ cmd)), argv = pre @ cmd, next = int (length pre)\<rparr>"
  note e = run [unfolded argp_parse_options [OF ok evs nd]]
  from e obtain g2 where g2: "scan h c ?st evs g0 = Inr g2"
    by (cases "scan h c ?st evs g0") (simp_all add: and_then_def)
  from e g2 obtain w ws where cmd: "cmd = w # ws"
    by (cases cmd) (simp_all add: and_then_def)
  from e g2 cmd obtain rc where
    "parse h c ARGP_KEY_END None
       \<lparr>argc = int (length (pre @ cmd)), argv = pre @ cmd, next = int (length (pre @ cmd))\<rparr>
       (g2\<lparr>mpi_argv := cmd, mpi_argc := int (length cmd), done := True\<rparr>) = Inr (rc, g)"
    by (auto simp: and_then_def split: sum.splits)
  moreover have "scan h c st evs g0 = Inr g2"
    using g2 scan_state_irrelevant [OF ok evs] by metis
  moreover have "cmd \<noteq> []" using cmd by simp
  ultimately show thesis using that by blast
qed

text \<open>
  C9. After a run of \<open>argp_parse\<close> that resolved a command line, a further call of
  the finalize step (\<open>ARGP_KEY_END\<close>) returns 0 and leaves every global variable as
  it was: the bit set, the port, the security model and all other fields.
\<close>

theorem finalize_again_is_noop:
  assumes ok: "launch_h_ok h" and evs: "list_all (option_event h c) evs"
    and run: "argp_parse h c pre evs cmd (init_globals c) = Inr g"
  shows "parse h c ARGP_KEY_END a st g = Inr (0, g)"
proof -
  from ok evs init_globals_simps(1) run obtain g2 rc st' where
    "parse h c ARGP_KEY_END None st'
       (g2\<lparr>mpi_argv := cmd, mpi_argc := int (length cmd), done := True\<rparr>) = Inr (rc, g)"
    by (rule argp_parse_result)
  then show ?thesis by (rule parse_END_idem [OF ok])
qed

theorem finalize_again_is_noop_witness:
  "launch_h_ok sample_launch_h
   \<and> list_all (option_event sample_launch_h sample_config)
        [(RELOCAOUT, Some ''no''), (PULL, None), (PORT, Some ''12345'')]
   \<and> (\<exists>g. argp_parse sample_launch_h sample_config [''spindle'']
          [(RELOCAOUT, Some ''no''), (PULL, None), (PORT, Some ''12345'')] [''a.out'']
          (init_globals sample_config) = Inr g
        \<and> opts g = 0xF4A \<and> spindle_port g = 12345 \<and> sec_model g = 0
        \<and> parse sample_launch_h sample_config ARGP_KEY_END None
            \<lparr>argc = 2, argv = [''spindle'', ''a.out''], next = 2\<rparr> g = Inr (0, g))"
proof -
  let ?evs = "[(RELOCAOUT, Some ''no''), (PULL, None), (PORT, Some ''12345'')]"
  let ?g = "(init_globals sample_config)\<lparr>enabled_opts := 0x40, disabled_opts := 0x80,
    mpi_argv := [''a.out''], mpi_argc := 1, done := True, sec_model := 0,
    spindle_port := 12345, opts := 0xF4A\<rparr>"
  have ok: "launch_h_ok sample_launch_h" by code_simp
  have evs: "list_all (option_event sample_launch_h sample_config) ?evs" by code_simp
  have run: "argp_parse sample_launch_h sample_config [''spindle''] ?evs [''a.out'']
      (init_globals sample_config) = Inr ?g"
    by code_simp
  from finalize_again_is_noop [OF ok evs run]
  show ?thesis using ok evs run by simp
qed

lemma and_or_zero:
  fixes a :: ulong
  shows "(a OR b) AND c = 0 \<longleftrightarrow> a AND c = 0 \<and> b AND c = 0"
    and "c AND (a OR b) = 0 \<longleftrightarrow> c AND a = 0 \<and> c AND b = 0"
  by (auto simp: bit_eq_iff bit_and_iff bit_or_iff)

lemma one_bit_disjoint':
  "one_bit a \<Longrightarrow> one_bit b \<Longrightarrow> b \<noteq> a \<Longrightarrow> a AND b = 0"
  using one_bit_disjoint [of a b] by blast

lemma launch_h_ok_groups:
  assumes ok: "launch_h_ok h"
  shows "all_reloc_opts h AND all_network_opts h = 0"
    and "all_reloc_opts h AND all_pushpull_opts h = 0"
    and "all_reloc_opts h AND all_misc_opts h = 0"
    and "all_reloc_opts h AND (OPT_NOMPI h OR OPT_NOHIDE h) = 0"
    and "all_misc_opts h AND all_network_opts h = 0"
    and "all_misc_opts h AND all_pushpull_opts h = 0"
    and "all_misc_opts h AND (OPT_NOMPI h OR OPT_NOHIDE h) = 0"
    and "all_pushpull_opts h AND all_network_opts h = 0"
    and "all_pushpull_opts h AND (OPT_NOMPI h OR OPT_NOHIDE h) = 0"
    and "OPT_REMAPEXEC h AND OPT_RELOCAOUT h = 0"
    and "OPT_REMAPEXEC h AND OPT_RELOCEXEC h = 0"
    and "OPT_PRELOAD h AND OPT_REMAPEXEC h = 0"
    and "OPT_PRELOAD h AND OPT_STRIP h = 0"
    and "OPT_PRELOAD h AND OPT_DEBUG h = 0"
    and "OPT_PRELOAD h AND OPT_NOCLEAN h = 0"
    and "OPT_PRELOAD h AND OPT_RELOCAOUT h = 0"
    and "OPT_PRELOAD h AND OPT_RELOCEXEC h = 0"
    and "OPT_PUSH h AND OPT_PULL h = 0"
    and "OPT_DEBUG h AND OPT_REMAPEXEC h = 0"
  using ok unfolding launch_h_ok_def option_codes_def
  by (simp_all add: all_reloc_opts_def all_network_opts_def all_pushpull_opts_def
      all_misc_opts_def and_or_zero one_bit_disjoint one_bit_disjoint')

lemma OPT_SET_SEC_or: "OPT_SET_SEC h x s = x OR OPT_SET_SEC h 0 s"
  by (simp add: OPT_SET_SEC_def)

lemma launch_h_ok_sec_groups:
  assumes ok: "launch_h_ok h" and s: "s \<in> set (security_models h)"
  shows "all_reloc_opts h AND OPT_SET_SEC h 0 s = 0"
    and "all_misc_opts h AND OPT_SET_SEC h 0 s = 0"
    and "all_pushpull_opts h AND OPT_SET_SEC h 0 s = 0"
    and "OPT_PRELOAD h AND OPT_SET_SEC h 0 s = 0"
proof -
  from ok s have "list_all (\<lambda>v. v AND OPT_SET_SEC h 0 s = 0) (option_codes h)"
    by (simp add: launch_h_ok_def list_all_iff)
  then show "all_reloc_opts h AND OPT_SET_SEC h 0 s = 0"
    and "all_misc_opts h AND OPT_SET_SEC h 0 s = 0"
    and "all_pushpull_opts h AND OPT_SET_SEC h 0 s = 0"
    and "OPT_PRELOAD h AND OPT_SET_SEC h 0 s = 0"
    by (simp_all add: option_codes_def all_reloc_opts_def all_misc_opts_def
        all_pushpull_opts_def and_or_zero)
qed

lemma launch_h_ok_one_bit:
  assumes ok: "launch_h_ok h"
  shows "one_bit (OPT_COBO h)" "one_bit (OPT_PUSH h)" "one_bit (OPT_PULL h)"
    "one_bit (OPT_PRELOAD h)" "one_bit (OPT_DEBUG h)" "OPT_PUSH h \<noteq> OPT_PULL h"
  using ok unfolding launch_h_ok_def option_codes_def by simp_all

lemma default_sec_model: "default_sec h c \<in> set (security_models h)"
  by (simp add: default_sec_def DEFAULT_SEC_def security_models_def)

lemma direct_by_disjoint:
  "(OPT_NOMPI h OR OPT_NOHIDE h) AND x = 0 \<Longrightarrow> direct_by h evs AND x = 0"
  by (induction evs) (auto simp: direct_code_def and_or_zero)

lemma disjoint_bits:
  fixes a :: ulong
  shows "a AND b = 0 \<longleftrightarrow> (\<forall>n. \<not> (bit a n \<and> bit b n))"
proof
  assume "a AND b = 0"
  then have "\<not> bit (a AND b) n" for n by simp
  then show "\<forall>n. \<not> (bit a n \<and> bit b n)" by (simp add: bit_and_iff)
next
  assume "\<forall>n. \<not> (bit a n \<and> bit b n)"
  then show "a AND b = 0" by (intro bit_eqI) (simp add: bit_and_iff)
qed

text \<open>
  What a successful run leaves behind, from the initial globals: the two sets are the
  sums over the options, they passed the three checks of the finalize step, and
  \<open>opts\<close> is the union that the step builds.
\<close>

lemma run_result:
  assumes ok: "launch_h_ok h" and evs: "list_all (option_event h c) evs"
    and run: "argp_parse h c pre evs cmd (init_globals c) = Inr g"
  shows "enabled_opts g = enabled_by h evs" "disabled_opts g = disabled_by h evs"
    and "enabled_opts g AND disabled_opts g = 0"
    and "\<not> multi_bits_set (enabled_opts g AND all_network_opts h)"
    and "\<not> multi_bits_set (enabled_opts g AND all_pushpull_opts h)"
    and "sec_model g \<in> set (security_models h)"
    and "opts g =
           direct_by h evs
           OR (if enabled_opts g AND all_network_opts h \<noteq> 0
               then enabled_opts g AND all_network_opts h else default_network_opts h)
           OR (if enabled_opts g AND all_pushpull_opts h \<noteq> 0
               then enabled_opts g AND all_pushpull_opts h else default_pushpull_opts h)
           OR (all_reloc_opts h AND NOT (disabled_opts g)
                 AND (enabled_opts g OR default_reloc_opts h))
           OR OPT_SET_SEC h 0 (sec_model g)
           OR (all_misc_opts h AND NOT (disabled_opts g)
                 AND (enabled_opts g OR default_misc_opts h))"
    and "(\<forall>a. (PORT, a) \<notin> set evs) \<longrightarrow> spindle_port g = SPINDLE_PORT c"
    and "cmd \<noteq> []"
proof -
  from ok evs init_globals_simps(1) run obtain g2 rc st' where
    sc: "scan h c \<lparr>argc = 0, argv = [], next = 0\<rparr> evs (init_globals c) = Inr g2"
    and cmd: "cmd \<noteq> []"
    and fin: "parse h c ARGP_KEY_END None st'
       (g2\<lparr>mpi_argv := cmd, mpi_argc := int (length cmd), done := True\<rparr>) = Inr (rc, g)"
    by (rule argp_parse_result)
  note inv = scan_option_events [OF ok evs init_globals_simps(1) sc]
  note r = parse_END_result [OF ok fin]
  from inv have g2: "enabled_opts g2 = enabled_by h evs" "disabled_opts g2 = disabled_by h evs"
    "opts g2 = direct_by h evs" by simp_all
  from inv have sec2: "sec_model g2 = - 1 \<or> sec_model g2 \<in> set (security_models h)"
    by simp
  show "cmd \<noteq> []" by (rule cmd)
  show e: "enabled_opts g = enabled_by h evs" "disabled_opts g = disabled_by h evs"
    unfolding r(5) using g2 by simp_all
  from r(2) show "enabled_opts g AND disabled_opts g = 0" unfolding e using g2 by simp
  from r(3) show "\<not> multi_bits_set (enabled_opts g AND all_network_opts h)"
    unfolding e using g2 by simp
  from r(4) show "\<not> multi_bits_set (enabled_opts g AND all_pushpull_opts h)"
    unfolding e using g2 by simp
  show "sec_model g \<in> set (security_models h)"
    unfolding r(5) using sec2 default_sec_model [of h c] by auto
  show "opts g =
           direct_by h evs
           OR (if enabled_opts g AND all_network_opts h \<noteq> 0
               then enabled_opts g AND all_network_opts h else default_network_opts h)
           OR (if enabled_opts g AND all_pushpull_opts h \<noteq> 0
               then enabled_opts g AND all_pushpull_opts h else default_pushpull_opts h)
           OR (all_reloc_opts h AND NOT (disabled_opts g)
                 AND (enabled_opts g OR default_reloc_opts h))
           OR OPT_SET_SEC h 0 (sec_model g)
           OR (all_misc_opts h AND NOT (disabled_opts g)
                 AND (enabled_opts g OR default_misc_opts h))"
    unfolding e unfolding r(5) using g2
    by (simp add: OPT_SET_SEC_or [of h "_ OR _"] or.assoc)
  from inv show "(\<forall>a. (PORT, a) \<notin> set evs) \<longrightarrow> spindle_port g = SPINDLE_PORT c"
    unfolding r(5) by simp
qed

lemma default_in_all:
  "default_reloc_opts h = all_reloc_opts h"
  "default_misc_opts h AND all_misc_opts h = default_misc_opts h"
  "default_network_opts h = all_network_opts h"
  "default_pushpull_opts h AND all_pushpull_opts h = default_pushpull_opts h"
  by (simp_all add: default_reloc_opts_def all_reloc_opts_def default_misc_opts_def
      all_misc_opts_def default_network_opts_def all_network_opts_def
      default_pushpull_opts_def all_pushpull_opts_def bit_eq_iff bit_and_iff bit_or_iff)

lemma group_bits:
  fixes G :: ulong
  assumes "d AND G = 0" "n AND G = 0" "p AND G = 0" "s AND G = 0" "m AND G = 0"
    and "r = G AND NOT dis AND (en OR D)" and "D AND G = D"
  shows "(d OR n OR p OR r OR s OR m) AND G = (D OR (en AND G)) AND NOT (dis AND G)"
proof (rule bit_eqI)
  fix k
  have D: "bit D k \<Longrightarrow> bit G k"
    using assms(7) by (metis bit_and_iff)
  show "bit ((d OR n OR p OR r OR s OR m) AND G) k
      \<longleftrightarrow> bit ((D OR (en AND G)) AND NOT (dis AND G)) k"
    using assms(1-5) [unfolded disjoint_bits] D
    by (auto simp: assms(6) bit_and_iff bit_or_iff bit_not_iff dest: bit_imp_le_length)
qed

lemma and_subset_zero:
  fixes G :: ulong
  shows "x AND G = 0 \<Longrightarrow> (y AND x) AND G = 0"
    and "x AND G = 0 \<Longrightarrow> (x AND y) AND G = 0"
  by (auto simp: bit_eq_iff bit_and_iff)

lemma group_bits_last:
  fixes G :: ulong
  assumes "d AND G = 0" "n AND G = 0" "p AND G = 0" "r AND G = 0" "s AND G = 0"
    and "m = G AND NOT dis AND (en OR D)" and "D AND G = D"
  shows "(d OR n OR p OR r OR s OR m) AND G = (D OR (en AND G)) AND NOT (dis AND G)"
proof -
  have "d OR n OR p OR r OR s OR m = d OR n OR p OR m OR s OR r"
    by (simp add: ac_simps)
  then show ?thesis
    using group_bits [OF assms(1-3) assms(5) assms(4) assms(6,7)] by simp
qed

lemma network_part_disjoint:
  fixes G :: ulong
  assumes "all_network_opts h AND G = 0"
  shows "(if en AND all_network_opts h \<noteq> 0 then en AND all_network_opts h
          else default_network_opts h) AND G = 0"
  using assms by (simp add: default_in_all and_subset_zero)

lemma pushpull_part_disjoint:
  fixes G :: ulong
  assumes "all_pushpull_opts h AND G = 0"
  shows "(if en AND all_pushpull_opts h \<noteq> 0 then en AND all_pushpull_opts h
          else default_pushpull_opts h) AND G = 0"
proof -
  have "(default_pushpull_opts h AND all_pushpull_opts h) AND G = 0"
    by (rule and_subset_zero(1) [OF assms])
  then have "default_pushpull_opts h AND G = 0"
    by (simp only: default_in_all(4))
  then show ?thesis using assms by (simp add: and_subset_zero)
qed

text \<open>The bits of \<open>opts\<close> inside the two default-bundle groups, after an accepted run.\<close>

lemma run_groups:
  assumes ok: "launch_h_ok h" and evs: "list_all (option_event h c) evs"
    and run: "argp_parse h c pre evs cmd (init_globals c) = Inr g"
  shows "opts g AND all_reloc_opts h
           = (default_reloc_opts h OR (enabled_opts g AND all_reloc_opts h))
             AND NOT (disabled_opts g AND all_reloc_opts h)
       \<and> opts g AND all_misc_opts h
           = (default_misc_opts h OR (enabled_opts g AND all_misc_opts h))
             AND NOT (disabled_opts g AND all_misc_opts h)"
proof -
  note r = run_result [OF ok evs run]
  note grp = launch_h_ok_groups [OF ok]
  note sec = launch_h_ok_sec_groups [OF ok r(6)]
  have c: "x AND y = 0 \<Longrightarrow> y AND x = 0" for x y :: ulong by (simp add: and.commute)
  have reloc: "opts g AND all_reloc_opts h
           = (default_reloc_opts h OR (enabled_opts g AND all_reloc_opts h))
             AND NOT (disabled_opts g AND all_reloc_opts h)"
    unfolding r(7)
  proof (rule group_bits)
    show "direct_by h evs AND all_reloc_opts h = 0"
      by (rule direct_by_disjoint [OF c [OF grp(4)]])
    show "(if enabled_opts g AND all_network_opts h \<noteq> 0
           then enabled_opts g AND all_network_opts h else default_network_opts h)
          AND all_reloc_opts h = 0"
      by (rule network_part_disjoint [OF c [OF grp(1)]])
    show "(if enabled_opts g AND all_pushpull_opts h \<noteq> 0
           then enabled_opts g AND all_pushpull_opts h else default_pushpull_opts h)
          AND all_reloc_opts h = 0"
      by (rule pushpull_part_disjoint [OF c [OF grp(2)]])
    show "OPT_SET_SEC h 0 (sec_model g) AND all_reloc_opts h = 0"
      by (rule c [OF sec(1)])
    show "(all_misc_opts h AND NOT (disabled_opts g) AND (enabled_opts g OR default_misc_opts h))
          AND all_reloc_opts h = 0"
      by (rule and_subset_zero(2) [OF c [OF grp(3)]])
    show "all_reloc_opts h AND NOT (disabled_opts g) AND (enabled_opts g OR default_reloc_opts h)
          = all_reloc_opts h AND NOT (disabled_opts g) AND (enabled_opts g OR default_reloc_opts h)"
      by (rule refl)
    show "default_reloc_opts h AND all_reloc_opts h = default_reloc_opts h"
      by (simp add: default_in_all)
  qed
  have misc: "opts g AND all_misc_opts h
           = (default_misc_opts h OR (enabled_opts g AND all_misc_opts h))
             AND NOT (disabled_opts g AND all_misc_opts h)"
    unfolding r(7)
  proof (rule group_bits_last)
    show "direct_by h evs AND all_misc_opts h = 0"
      by (rule direct_by_disjoint [OF c [OF grp(7)]])
    show "(if enabled_opts g AND all_network_opts h \<noteq> 0
           then enabled_opts g AND all_network_opts h else default_network_opts h)
          AND all_misc_opts h = 0"
      by (rule network_part_disjoint [OF c [OF grp(5)]])
    show "(if enabled_opts g AND all_pushpull_opts h \<noteq> 0
           then enabled_opts g AND all_pushpull_opts h else default_pushpull_opts h)
          AND all_misc_opts h = 0"
      by (rule pushpull_part_disjoint [OF c [OF grp(6)]])
    show "OPT_SET_SEC h 0 (sec_model g) AND all_misc_opts h = 0"
      by (rule c [OF sec(2)])
    show "(all_reloc_opts h AND NOT (disabled_opts g) AND (enabled_opts g OR default_reloc_opts h))
          AND all_misc_opts h = 0"
      by (rule and_subset_zero(2) [OF grp(3)])
    show "all_misc_opts h AND NOT (disabled_opts g) AND (enabled_opts g OR default_misc_opts h)
          = all_misc_opts h AND NOT (disabled_opts g) AND (enabled_opts g OR default_misc_opts h)"
      by (rule refl)
    show "default_misc_opts h AND all_misc_opts h = default_misc_opts h"
      by (simp add: default_in_all)
  qed
  from reloc misc show ?thesis by simp
qed

text \<open>
  C2. After a run that finalize accepted, the bits of \<open>opts\<close> inside the relocation
  group are the compiled default bits of the group together with the enabled bits of
  the group, without the disabled bits of the group; and the same for the miscellaneous
  group. So a disabled bit is off even if it is a default, and an enabled bit that is not
  disabled is on even if it is no default.
\<close>

theorem default_bundle_groups_resolved:
  assumes ok: "launch_h_ok h" and evs: "list_all (option_event h c) evs"
    and run: "argp_parse h c pre evs cmd (init_globals c) = Inr g"
  shows "opts g AND all_reloc_opts h
           = (default_reloc_opts h OR (enabled_opts g AND all_reloc_opts h))
             AND NOT (disabled_opts g AND all_reloc_opts h)
       \<and> opts g AND all_misc_opts h
           = (default_misc_opts h OR (enabled_opts g AND all_misc_opts h))
             AND NOT (disabled_opts g AND all_misc_opts h)"
  by (rule run_groups [OF ok evs run])

theorem default_bundle_groups_resolved_witness:
  "launch_h_ok sample_launch_h
   \<and> list_all (option_event sample_launch_h sample_config)
        [(RELOCAOUT, Some ''no''), (NOCLEAN, Some ''y''), (STRIP, Some ''n''),
         (PRELOAD, Some ''list.txt'')]
   \<and> (\<exists>g. argp_parse sample_launch_h sample_config [''spindle'']
          [(RELOCAOUT, Some ''no''), (NOCLEAN, Some ''y''), (STRIP, Some ''n''),
           (PRELOAD, Some ''list.txt'')] [''a.out''] (init_globals sample_config) = Inr g
        \<and> enabled_opts g = 0x1010 \<and> disabled_opts g = 0x880
        \<and> opts g AND all_reloc_opts sample_launch_h = 0x708
        \<and> opts g AND all_misc_opts sample_launch_h = 0x1010)"
proof -
  let ?evs = "[(RELOCAOUT, Some ''no''), (NOCLEAN, Some ''y''), (STRIP, Some ''n''),
    (PRELOAD, Some ''list.txt'')]"
  let ?g = "(init_globals sample_config)\<lparr>enabled_opts := 0x1010, disabled_opts := 0x880,
    preload_file := Some ''list.txt'', mpi_argv := [''a.out''], mpi_argc := 1, done := True,
    sec_model := 0, opts := 0x173A\<rparr>"
  have ok: "launch_h_ok sample_launch_h" by code_simp
  have evs: "list_all (option_event sample_launch_h sample_config) ?evs" by code_simp
  have run: "argp_parse sample_launch_h sample_config [''spindle''] ?evs [''a.out'']
      (init_globals sample_config) = Inr ?g"
    by code_simp
  have d: "default_reloc_opts sample_launch_h = 0x788" "all_reloc_opts sample_launch_h = 0x788"
    "default_misc_opts sample_launch_h = 0x800" "all_misc_opts sample_launch_h = 0x1814"
    by code_simp+
  from default_bundle_groups_resolved [OF ok evs run]
  have "opts ?g AND all_reloc_opts sample_launch_h = 0x708
    \<and> opts ?g AND all_misc_opts sample_launch_h = 0x1010"
    unfolding d by simp
  with ok evs run show ?thesis by simp
qed

lemma multi_bits_set_zero [simp]: "\<not> multi_bits_set 0"
  by (simp add: multi_bits_set_def)

lemma not_multi_bits_set_and:
  assumes "one_bit v"
  shows "\<not> multi_bits_set (x AND v)"
proof -
  from assms obtain k where k: "k < 64" "v = 2 ^ k" by (auto simp: one_bit_iff)
  have "x AND v = (if bit x k then 2 ^ k else 0)"
    unfolding k(2) by (rule bit_eqI) (auto simp: bit_and_iff bit_exp_iff)
  then show ?thesis by simp
qed

lemma enabled_by_mem:
  "ev \<in> set evs \<Longrightarrow> enabled_by h evs AND enable_code h ev = enable_code h ev"
  by (induction evs) (auto simp: bit_eq_iff bit_and_iff bit_or_iff)

lemma disabled_by_mem:
  "ev \<in> set evs \<Longrightarrow> disabled_by h evs AND disable_code h ev = disable_code h ev"
  by (induction evs) (auto simp: bit_eq_iff bit_and_iff bit_or_iff)

lemma enabled_by_zero:
  "(\<forall>ev \<in> set evs. enable_code h ev AND x = 0) \<Longrightarrow> enabled_by h evs AND x = 0"
  by (induction evs) (auto simp: and_or_zero)

lemma enabled_by_nonzero:
  "enabled_by h evs AND x \<noteq> 0 \<Longrightarrow> \<exists>ev \<in> set evs. enable_code h ev AND x \<noteq> 0"
  using enabled_by_zero [of evs h x] by blast

lemma disabled_by_zero:
  "(\<forall>ev \<in> set evs. disable_code h ev AND x = 0) \<Longrightarrow> disabled_by h evs AND x = 0"
  by (induction evs) (auto simp: and_or_zero)

lemma opt_key_to_code_mem:
  "opt_key_to_code h k = 0 \<or> opt_key_to_code h k \<in> set (option_codes h)"
  by (simp add: opt_key_to_code_def option_codes_def)

lemma codes_meet:
  assumes ok: "launch_h_ok h" and "a \<in> set (option_codes h)" "b \<in> set (option_codes h)"
    and "a AND b \<noteq> 0"
  shows "a = b"
  using assms launch_h_ok_codes(1) [OF ok] one_bit_disjoint [of a b] by blast

lemma opt_key_to_code_eq:
  assumes ok: "launch_h_ok h"
  shows "opt_key_to_code h k = OPT_PUSH h \<longleftrightarrow> k = PUSH"
    and "opt_key_to_code h k = OPT_PULL h \<longleftrightarrow> k = PULL"
    and "opt_key_to_code h k = OPT_PRELOAD h \<longleftrightarrow> k = PRELOAD"
proof -
  have d: "distinct (option_codes h)" "list_all (\<lambda>v. v \<noteq> 0) (option_codes h)"
    using ok by (auto simp: launch_h_ok_def list_all_iff one_bit_def)
  have ne: "x \<noteq> y \<and> y \<noteq> x \<and> 0 \<noteq> x \<and> 0 \<noteq> y"
    if "x \<in> {OPT_PUSH h, OPT_PULL h, OPT_PRELOAD h}"
      "y \<in> {OPT_RELOCAOUT h, OPT_RELOCSO h, OPT_RELOCEXEC h, OPT_RELOCPY h, OPT_FOLLOWFORK h,
        OPT_COBO h, OPT_STRIP h, OPT_DEBUG h, OPT_NOCLEAN h}" for x y
    using d that unfolding option_codes_def by auto
  have ne': "OPT_PUSH h \<noteq> OPT_PULL h" "OPT_PULL h \<noteq> OPT_PUSH h"
    "OPT_PUSH h \<noteq> OPT_PRELOAD h" "OPT_PRELOAD h \<noteq> OPT_PUSH h"
    "OPT_PULL h \<noteq> OPT_PRELOAD h" "OPT_PRELOAD h \<noteq> OPT_PULL h"
    "0 \<noteq> OPT_PUSH h" "0 \<noteq> OPT_PULL h" "0 \<noteq> OPT_PRELOAD h"
    using d unfolding option_codes_def by auto
  show "opt_key_to_code h k = OPT_PUSH h \<longleftrightarrow> k = PUSH"
    using ne [of "OPT_PUSH h"] ne' unfolding opt_key_to_code_def
    by (simp add: key_defs)
  show "opt_key_to_code h k = OPT_PULL h \<longleftrightarrow> k = PULL"
    using ne [of "OPT_PULL h"] ne' unfolding opt_key_to_code_def
    by (simp add: key_defs)
  show "opt_key_to_code h k = OPT_PRELOAD h \<longleftrightarrow> k = PRELOAD"
    using ne [of "OPT_PRELOAD h"] ne' unfolding opt_key_to_code_def
    by (simp add: key_defs)
qed

lemma group_bits_only:
  fixes G :: ulong
  assumes "d AND G = 0" "n AND G = 0" "r AND G = 0" "s AND G = 0" "m AND G = 0"
  shows "(d OR n OR p OR r OR s OR m) AND G = p AND G"
proof (rule bit_eqI)
  fix k
  show "bit ((d OR n OR p OR r OR s OR m) AND G) k \<longleftrightarrow> bit (p AND G) k"
    using assms [unfolded disjoint_bits]
    by (auto simp: bit_and_iff bit_or_iff)
qed

lemma option_event_flag:
  assumes ok: "launch_h_ok h" and ev: "option_event h c (k, a)"
    and k: "k = PUSH \<or> k = PULL \<or> k = COBO"
  shows "a = None"
proof -
  from ok ev obtain e where e: "arg e = None \<longleftrightarrow> a = None" "find_entry (options h c) k = e"
    by (rule option_eventE)
  from k e(2) have "arg e = None"
    by (auto simp: find_entry_plain [OF ok] opt_entry_def)
  with e(1) show ?thesis by simp
qed

lemma enable_code_flag [simp]:
  "enable_code h (PUSH, a) = OPT_PUSH h" "enable_code h (PULL, a) = OPT_PULL h"
  "enable_code h (COBO, a) = OPT_COBO h" "enable_code h (PRELOAD, a) = OPT_PRELOAD h"
  by (simp_all add: enable_code_def)

lemma enable_code_cases:
  "enable_code h (k, a) = 0 \<or> enable_code h (k, a) = opt_key_to_code h k"
  by (simp add: enable_code_def)

lemma disable_code_cases:
  "disable_code h (k, a) = 0 \<or> (yesno_key k \<and> disable_code h (k, a) = opt_key_to_code h k)"
  by (simp add: disable_code_def)

text \<open>An option that turns a given option code on can only be the option of that code.\<close>

lemma enable_code_meets:
  assumes ok: "launch_h_ok h" and m: "enable_code h (k, a) AND v \<noteq> 0"
    and v: "v \<in> set (option_codes h)"
  shows "opt_key_to_code h k = v"
proof -
  from m enable_code_cases [of h k a] have e: "enable_code h (k, a) = opt_key_to_code h k"
    by auto
  with m opt_key_to_code_mem [of h k] have "opt_key_to_code h k \<in> set (option_codes h)"
    by auto
  from codes_meet [OF ok this v] m e show ?thesis by simp
qed

lemma scan_sets:
  assumes ok: "launch_h_ok h" and evs: "list_all (option_event h c) evs"
    and sc: "scan h c st evs (init_globals c) = Inr g"
  shows "enabled_opts g = enabled_by h evs" "disabled_opts g = disabled_by h evs"
  using scan_option_events [OF ok evs init_globals_simps(1) sc] by simp_all

text \<open>
  C4. On a command line that is otherwise valid (its options scan without error, and
  no option is both enabled and disabled, which is the check that the finalize step
  makes first): when the options contain both \<open>push\<close> and \<open>pull\<close>, the finalize
  step exits with the error "Cannot enable both push and pull options", and so does the
  run of \<open>argp_parse\<close> (with no command on the line it ends in the error for the
  missing command before it). When the options contain neither \<open>push\<close> nor
  \<open>pull\<close> and the run is accepted, the push/pull bits of \<open>opts\<close> are the compiled
  default, push.
\<close>

theorem push_pull_selection:
  assumes ok: "launch_h_ok h" and evs: "list_all (option_event h c) evs"
  shows "((PUSH, None) \<in> set evs \<and> (PULL, None) \<in> set evs
          \<and> scan h c st evs (init_globals c) = Inr g
          \<and> enabled_opts g AND disabled_opts g = 0
          \<longrightarrow> parse h c ARGP_KEY_END a st' g = Inl BothPushAndPull
            \<and> argp_parse h c pre evs cmd (init_globals c)
                = Inl (if cmd = [] then NoMPICommandLine else BothPushAndPull))
       \<and> ((\<forall>a. (PUSH, a) \<notin> set evs \<and> (PULL, a) \<notin> set evs)
          \<and> argp_parse h c pre evs cmd (init_globals c) = Inr g'
          \<longrightarrow> opts g' AND all_pushpull_opts h = OPT_PUSH h)"
proof (intro conjI impI; (elim conjE)?)
  assume push: "(PUSH, None) \<in> set evs" and pull: "(PULL, None) \<in> set evs"
    and sc: "scan h c st evs (init_globals c) = Inr g"
    and nc: "enabled_opts g AND disabled_opts g = 0"
  note sets = scan_sets [OF ok evs sc]
  note one = launch_h_ok_one_bit [OF ok]
  have "enabled_opts g AND OPT_PUSH h = OPT_PUSH h" "enabled_opts g AND OPT_PULL h = OPT_PULL h"
    unfolding sets using enabled_by_mem [OF push, of h] enabled_by_mem [OF pull, of h]
    by simp_all
  then have "enabled_opts g AND all_pushpull_opts h = OPT_PUSH h OR OPT_PULL h"
    by (simp add: all_pushpull_opts_def bit.conj_disj_distrib)
  then have pp: "multi_bits_set (enabled_opts g AND all_pushpull_opts h)"
    using multi_bits_set_two [OF one(2,3,6)] by simp
  have net: "\<not> multi_bits_set (enabled_opts g AND all_network_opts h)"
    unfolding all_network_opts_def by (rule not_multi_bits_set_and [OF one(1)])
  have fin: "parse h c ARGP_KEY_END a' st'' g1 = Inl BothPushAndPull"
    if "enabled_opts g1 = enabled_opts g" "disabled_opts g1 = disabled_opts g" for a' st'' g1
    using pp net nc that by (simp add: parse_END [OF ok])
  have s: "scan h c \<lparr>argc = int (length (pre @ cmd)), argv = pre @ cmd, next = int (length pre)\<rparr>
      evs (init_globals c) = Inr g"
    using sc scan_state_irrelevant [OF ok evs] by metis
  show "parse h c ARGP_KEY_END a st' g = Inl BothPushAndPull"
    by (rule fin) simp_all
  show "argp_parse h c pre evs cmd (init_globals c)
      = Inl (if cmd = [] then NoMPICommandLine else BothPushAndPull)"
    unfolding argp_parse_options [OF ok evs init_globals_simps(1)] s
    by (cases cmd) (simp_all add: and_then_def fin)
next
  assume none: "\<forall>a. (PUSH, a) \<notin> set evs \<and> (PULL, a) \<notin> set evs"
    and run: "argp_parse h c pre evs cmd (init_globals c) = Inr g'"
  note r = run_result [OF ok evs run]
  note grp = launch_h_ok_groups [OF ok]
  note sec = launch_h_ok_sec_groups [OF ok r(6)]
  have c: "x AND y = 0 \<Longrightarrow> y AND x = 0" for x y :: ulong by (simp add: and.commute)
  have mem: "OPT_PUSH h \<in> set (option_codes h)" "OPT_PULL h \<in> set (option_codes h)"
    by (simp_all add: option_codes_def)
  have "enable_code h ev AND all_pushpull_opts h = 0" if ev: "ev \<in> set evs" for ev
  proof (rule ccontr)
    assume n: "enable_code h ev AND all_pushpull_opts h \<noteq> 0"
    obtain k a where ka: "ev = (k, a)" by (cases ev)
    from n have "enable_code h (k, a) AND OPT_PUSH h \<noteq> 0 \<or> enable_code h (k, a) AND OPT_PULL h \<noteq> 0"
      unfolding ka all_pushpull_opts_def by (simp add: and_or_zero)
    then have "opt_key_to_code h k = OPT_PUSH h \<or> opt_key_to_code h k = OPT_PULL h"
      using enable_code_meets [OF ok _ mem(1)] enable_code_meets [OF ok _ mem(2)] by blast
    then have "k = PUSH \<or> k = PULL"
      by (simp add: opt_key_to_code_eq [OF ok])
    with none ev ka show False by auto
  qed
  then have "enabled_opts g' AND all_pushpull_opts h = 0"
    unfolding r(1) by (intro enabled_by_zero) blast
  then have pp: "(if enabled_opts g' AND all_pushpull_opts h \<noteq> 0
                  then enabled_opts g' AND all_pushpull_opts h else default_pushpull_opts h)
                 = OPT_PUSH h"
    by (simp add: default_pushpull_opts_def)
  have "opts g' AND all_pushpull_opts h = OPT_PUSH h AND all_pushpull_opts h"
    unfolding r(7) pp
  proof (rule group_bits_only)
    show "direct_by h evs AND all_pushpull_opts h = 0"
      by (rule direct_by_disjoint [OF c [OF grp(9)]])
    show "(if enabled_opts g' AND all_network_opts h \<noteq> 0
           then enabled_opts g' AND all_network_opts h else default_network_opts h)
          AND all_pushpull_opts h = 0"
      by (rule network_part_disjoint [OF c [OF grp(8)]])
    show "(all_reloc_opts h AND NOT (disabled_opts g') AND (enabled_opts g' OR default_reloc_opts h))
          AND all_pushpull_opts h = 0"
      by (rule and_subset_zero(2) [OF grp(2)])
    show "OPT_SET_SEC h 0 (sec_model g') AND all_pushpull_opts h = 0"
      by (rule c [OF sec(3)])
    show "(all_misc_opts h AND NOT (disabled_opts g') AND (enabled_opts g' OR default_misc_opts h))
          AND all_pushpull_opts h = 0"
      by (rule and_subset_zero(2) [OF grp(6)])
  qed
  also have "\<dots> = OPT_PUSH h"
    by (simp add: all_pushpull_opts_def bit_eq_iff bit_and_iff bit_or_iff)
  finally show "opts g' AND all_pushpull_opts h = OPT_PUSH h" .
qed

theorem push_pull_selection_witness:
  "launch_h_ok sample_launch_h
   \<and> list_all (option_event sample_launch_h sample_config)
        [(PUSH, None), (RELOCSO, Some ''no''), (PULL, None)]
   \<and> parse sample_launch_h sample_config ARGP_KEY_END None
        \<lparr>argc = 0, argv = [], next = 0\<rparr>
        ((init_globals sample_config)\<lparr>enabled_opts := 0x60, disabled_opts := 0x100\<rparr>)
      = Inl BothPushAndPull
   \<and> argp_parse sample_launch_h sample_config [''spindle'']
        [(PUSH, None), (RELOCSO, Some ''no''), (PULL, None)]
        [''a.out''] (init_globals sample_config) = Inl BothPushAndPull
   \<and> list_all (option_event sample_launch_h sample_config) [(RELOCSO, Some ''no'')]
   \<and> (\<exists>g. argp_parse sample_launch_h sample_config [''spindle''] [(RELOCSO, Some ''no'')]
          [''a.out''] (init_globals sample_config) = Inr g
        \<and> opts g AND all_pushpull_opts sample_launch_h = OPT_PUSH sample_launch_h)"
proof -
  let ?both = "[(PUSH, None), (RELOCSO, Some ''no''), (PULL, None)]"
  let ?none = "[(RELOCSO, Some ''no'')]"
  let ?st = "\<lparr>argc = 0, argv = [], next = 0\<rparr>"
  let ?g = "(init_globals sample_config)\<lparr>enabled_opts := 0x60, disabled_opts := 0x100\<rparr>"
  let ?g' = "(init_globals sample_config)\<lparr>disabled_opts := 0x100, mpi_argv := [''a.out''],
    mpi_argc := 1, done := True, sec_model := 0, opts := 0xEAA\<rparr>"
  have ok: "launch_h_ok sample_launch_h" by code_simp
  have both: "list_all (option_event sample_launch_h sample_config) ?both" by code_simp
  have none: "list_all (option_event sample_launch_h sample_config) ?none" by code_simp
  have mem: "(PUSH, None) \<in> set ?both" "(PULL, None) \<in> set ?both" by simp_all
  have sc: "scan sample_launch_h sample_config ?st ?both (init_globals sample_config) = Inr ?g"
    by code_simp
  have run: "argp_parse sample_launch_h sample_config [''spindle''] ?none [''a.out'']
      (init_globals sample_config) = Inr ?g'"
    by code_simp
  have no_conflict: "enabled_opts ?g AND disabled_opts ?g = 0" by simp
  have absent: "\<forall>a. (PUSH, a) \<notin> set ?none \<and> (PULL, a) \<notin> set ?none"
    by (simp add: key_defs)
  from push_pull_selection [OF ok both, of ?st ?g None ?st "[''spindle'']" "[''a.out'']"]
    mem sc no_conflict
  have 1: "parse sample_launch_h sample_config ARGP_KEY_END None ?st ?g = Inl BothPushAndPull
    \<and> argp_parse sample_launch_h sample_config [''spindle''] ?both [''a.out'']
      (init_globals sample_config) = Inl BothPushAndPull"
    by simp
  from push_pull_selection [OF ok none, of ?st ?g None ?st "[''spindle'']" "[''a.out'']" ?g']
    absent run
  have 2: "opts ?g' AND all_pushpull_opts sample_launch_h = OPT_PUSH sample_launch_h"
    by blast
  from ok both none 1 2 run show ?thesis by blast
qed

lemma parseArgs_init:
  "parseArgs h c pre evs cmd (init_globals c) =
     and_then (argp_parse h c pre evs cmd (init_globals c)) (\<lambda>g1.
       let g2 = (if opts g1 AND OPT_DEBUG h \<noteq> 0 then
                   g1\<lparr>opts := ((opts g1 AND NOT (OPT_RELOCAOUT h)) AND NOT (OPT_RELOCEXEC h))
                                 OR OPT_REMAPEXEC h\<rparr>
                 else g1)
       in Inr (opts g2, g2))"
proof -
  have "(init_globals c)\<lparr>done := False\<rparr> = init_globals c"
    by (simp add: init_globals_def)
  then show ?thesis unfolding parseArgs_def by (simp only:)
qed

lemma override_bits:
  fixes x :: ulong
  assumes "r AND a = 0" "r AND e = 0"
  shows "(((x AND NOT a) AND NOT e) OR r) AND a = 0"
    and "(((x AND NOT a) AND NOT e) OR r) AND e = 0"
    and "(((x AND NOT a) AND NOT e) OR r) AND r = r"
    and "(((x AND NOT a) AND NOT e) OR r) AND NOT (a OR e OR r) = x AND NOT (a OR e OR r)"
  using assms [unfolded disjoint_bits]
  by (auto simp: bit_eq_iff bit_and_iff bit_or_iff bit_not_iff)

text \<open>
  C6. \<open>parseArgs\<close> applies one override to the bit set that the finalize step left.
  If that set contains the debug bit, the returned set has the relocate-main-executable
  and the relocate-exec bits off and the remap-exec bit on, whatever the options (such
  as an explicit reloc-aout=yes or reloc-exec=yes) had made of them, and agrees with the
  finalized set on every other bit. If it does not contain the debug bit, the returned
  set is the finalized set. No other global variable changes.
\<close>

theorem debug_mode_override:
  assumes ok: "launch_h_ok h"
    and run: "argp_parse h c pre evs cmd (init_globals c) = Inr g1"
  shows "\<exists>g2. parseArgs h c pre evs cmd (init_globals c) = Inr (opts g2, g2)
      \<and> g2 = g1\<lparr>opts := opts g2\<rparr>
      \<and> (opts g1 AND OPT_DEBUG h \<noteq> 0 \<longrightarrow>
            opts g2 AND OPT_RELOCAOUT h = 0 \<and> opts g2 AND OPT_RELOCEXEC h = 0
            \<and> opts g2 AND OPT_REMAPEXEC h = OPT_REMAPEXEC h
            \<and> opts g2 AND NOT (OPT_RELOCAOUT h OR OPT_RELOCEXEC h OR OPT_REMAPEXEC h)
                = opts g1 AND NOT (OPT_RELOCAOUT h OR OPT_RELOCEXEC h OR OPT_REMAPEXEC h))
      \<and> (opts g1 AND OPT_DEBUG h = 0 \<longrightarrow> opts g2 = opts g1)"
proof (cases "opts g1 AND OPT_DEBUG h = 0")
  case True
  then have "parseArgs h c pre evs cmd (init_globals c) = Inr (opts g1, g1)"
    by (simp add: parseArgs_init run and_then_def)
  with True show ?thesis by (intro exI [of _ g1]) simp
next
  case False
  note grp = launch_h_ok_groups [OF ok]
  let ?o = "((opts g1 AND NOT (OPT_RELOCAOUT h)) AND NOT (OPT_RELOCEXEC h)) OR OPT_REMAPEXEC h"
  from False have "parseArgs h c pre evs cmd (init_globals c) = Inr (?o, g1\<lparr>opts := ?o\<rparr>)"
    by (simp add: parseArgs_init run and_then_def)
  with False override_bits [OF grp(10,11), of "opts g1"] show ?thesis
    by (intro exI [of _ "g1\<lparr>opts := ?o\<rparr>"]) simp
qed

theorem debug_mode_override_witness:
  "launch_h_ok sample_launch_h
   \<and> (\<exists>g1 g2.
        argp_parse sample_launch_h sample_config [''spindle'']
          [(RELOCAOUT, Some ''yes''), (RELOCEXEC, Some ''yes''), (DEBUG, Some ''yes'')]
          [''a.out''] (init_globals sample_config) = Inr g1
        \<and> opts g1 = 0xFAE \<and> opts g1 AND OPT_DEBUG sample_launch_h \<noteq> 0
        \<and> parseArgs sample_launch_h sample_config [''spindle'']
          [(RELOCAOUT, Some ''yes''), (RELOCEXEC, Some ''yes''), (DEBUG, Some ''yes'')]
          [''a.out''] (init_globals sample_config) = Inr (opts g2, g2)
        \<and> opts g2 AND OPT_RELOCAOUT sample_launch_h = 0
        \<and> opts g2 AND OPT_RELOCEXEC sample_launch_h = 0
        \<and> opts g2 AND OPT_REMAPEXEC sample_launch_h = OPT_REMAPEXEC sample_launch_h)
   \<and> (\<exists>g1.
        argp_parse sample_launch_h sample_config [''spindle''] [(RELOCAOUT, Some ''yes'')]
          [''a.out''] (init_globals sample_config) = Inr g1
        \<and> opts g1 AND OPT_DEBUG sample_launch_h = 0
        \<and> parseArgs sample_launch_h sample_config [''spindle''] [(RELOCAOUT, Some ''yes'')]
          [''a.out''] (init_globals sample_config) = Inr (opts g1, g1))"
proof -
  let ?dbg = "[(RELOCAOUT, Some ''yes''), (RELOCEXEC, Some ''yes''), (DEBUG, Some ''yes'')]"
  let ?plain = "[(RELOCAOUT, Some ''yes'')]"
  let ?g1 = "(init_globals sample_config)\<lparr>enabled_opts := 0x284, mpi_argv := [''a.out''],
    mpi_argc := 1, done := True, sec_model := 0, opts := 0xFAE\<rparr>"
  let ?g1' = "(init_globals sample_config)\<lparr>enabled_opts := 0x80, mpi_argv := [''a.out''],
    mpi_argc := 1, done := True, sec_model := 0, opts := 0xFAA\<rparr>"
  have ok: "launch_h_ok sample_launch_h" by code_simp
  have run: "argp_parse sample_launch_h sample_config [''spindle''] ?dbg [''a.out'']
      (init_globals sample_config) = Inr ?g1"
    by code_simp
  have run': "argp_parse sample_launch_h sample_config [''spindle''] ?plain [''a.out'']
      (init_globals sample_config) = Inr ?g1'"
    by code_simp
  have dbg: "opts ?g1 AND OPT_DEBUG sample_launch_h \<noteq> 0"
    "opts ?g1' AND OPT_DEBUG sample_launch_h = 0"
    by (simp_all add: sample_launch_h_def)
  from debug_mode_override [OF ok run] dbg(1) obtain g2 where g2:
    "parseArgs sample_launch_h sample_config [''spindle''] ?dbg [''a.out'']
       (init_globals sample_config) = Inr (opts g2, g2)"
    "opts g2 AND OPT_RELOCAOUT sample_launch_h = 0"
    "opts g2 AND OPT_RELOCEXEC sample_launch_h = 0"
    "opts g2 AND OPT_REMAPEXEC sample_launch_h = OPT_REMAPEXEC sample_launch_h"
    by blast
  from debug_mode_override [OF ok run'] dbg(2) have plain:
    "parseArgs sample_launch_h sample_config [''spindle''] ?plain [''a.out'']
       (init_globals sample_config) = Inr (opts ?g1', ?g1')"
    by auto
  have first: "\<exists>g1 g2.
        argp_parse sample_launch_h sample_config [''spindle''] ?dbg
          [''a.out''] (init_globals sample_config) = Inr g1
        \<and> opts g1 = 0xFAE \<and> opts g1 AND OPT_DEBUG sample_launch_h \<noteq> 0
        \<and> parseArgs sample_launch_h sample_config [''spindle''] ?dbg
          [''a.out''] (init_globals sample_config) = Inr (opts g2, g2)
        \<and> opts g2 AND OPT_RELOCAOUT sample_launch_h = 0
        \<and> opts g2 AND OPT_RELOCEXEC sample_launch_h = 0
        \<and> opts g2 AND OPT_REMAPEXEC sample_launch_h = OPT_REMAPEXEC sample_launch_h"
    using run dbg(1) g2 by (rule_tac x = ?g1 in exI, rule_tac x = g2 in exI) simp
  have second: "\<exists>g1.
        argp_parse sample_launch_h sample_config [''spindle''] ?plain
          [''a.out''] (init_globals sample_config) = Inr g1
        \<and> opts g1 AND OPT_DEBUG sample_launch_h = 0
        \<and> parseArgs sample_launch_h sample_config [''spindle''] ?plain
          [''a.out''] (init_globals sample_config) = Inr (opts g1, g1)"
    using run' dbg(2) plain by (rule_tac x = ?g1' in exI) simp
  from ok first second show ?thesis by blast
qed

lemma disabled_by_preload:
  assumes ok: "launch_h_ok h"
  shows "disabled_by h evs AND OPT_PRELOAD h = 0"
proof (rule disabled_by_zero, rule ballI, rule ccontr)
  fix ev
  assume n: "disable_code h ev AND OPT_PRELOAD h \<noteq> 0"
  obtain k a where ka: "ev = (k, a)" by (cases ev)
  from n disable_code_cases [of h k a] have y: "yesno_key k"
    and d: "opt_key_to_code h k AND OPT_PRELOAD h \<noteq> 0"
    unfolding ka by auto
  from d opt_key_to_code_mem [of h k] have "opt_key_to_code h k \<in> set (option_codes h)"
    by auto
  moreover have "OPT_PRELOAD h \<in> set (option_codes h)" by (simp add: option_codes_def)
  ultimately have "opt_key_to_code h k = OPT_PRELOAD h"
    using codes_meet [OF ok] d by blast
  then have "k = PRELOAD" by (simp add: opt_key_to_code_eq [OF ok])
  with y show False by simp
qed

lemma enabled_by_preload:
  assumes ok: "launch_h_ok h"
  shows "enabled_by h evs AND OPT_PRELOAD h \<noteq> 0 \<longleftrightarrow> (\<exists>f. (PRELOAD, f) \<in> set evs)"
proof
  assume "enabled_by h evs AND OPT_PRELOAD h \<noteq> 0"
  then obtain ev where ev: "ev \<in> set evs" "enable_code h ev AND OPT_PRELOAD h \<noteq> 0"
    using enabled_by_nonzero by blast
  obtain k a where ka: "ev = (k, a)" by (cases ev)
  have "OPT_PRELOAD h \<in> set (option_codes h)" by (simp add: option_codes_def)
  from enable_code_meets [OF ok ev(2) [unfolded ka] this] have "k = PRELOAD"
    by (simp add: opt_key_to_code_eq [OF ok])
  with ev(1) ka show "\<exists>f. (PRELOAD, f) \<in> set evs" by blast
next
  assume "\<exists>f. (PRELOAD, f) \<in> set evs"
  then obtain f where "(PRELOAD, f) \<in> set evs" ..
  from enabled_by_mem [OF this, of h] have "enabled_by h evs AND OPT_PRELOAD h = OPT_PRELOAD h"
    by simp
  moreover have "OPT_PRELOAD h \<noteq> 0"
    using launch_h_ok_one_bit(4) [OF ok] by (simp add: one_bit_def)
  ultimately show "enabled_by h evs AND OPT_PRELOAD h \<noteq> 0" by simp
qed

lemma misc_member_bits:
  fixes P :: ulong
  assumes "x AND M = (D OR (en AND M)) AND NOT (dis AND M)"
    and "P AND M = P" "D AND P = 0" "dis AND P = 0"
  shows "x AND P = en AND P"
proof (rule bit_eqI)
  fix k
  have 1: "bit (x AND M) k \<longleftrightarrow> bit ((D OR (en AND M)) AND NOT (dis AND M)) k"
    using assms(1) by simp
  have 2: "bit P k \<Longrightarrow> bit M k"
    using assms(2) by (metis bit_and_iff)
  show "bit (x AND P) k \<longleftrightarrow> bit (en AND P) k"
    using 1 2 assms(3,4) [unfolded disjoint_bits]
    by (auto simp: bit_and_iff bit_or_iff bit_not_iff dest: bit_imp_le_length)
qed

text \<open>
  C10. The call of the parser for the preload option stores the file name and also adds
  the preload bit to the enabled set. The miscellaneous defaults do not contain that
  bit, and for every accepted invocation the bit set that \<open>parseArgs\<close> returns
  contains it exactly if a preload option was among the options.
\<close>

theorem preload_bit_iff_option:
  assumes ok: "launch_h_ok h" and evs: "list_all (option_event h c) evs"
  shows "(\<not> done g0 \<longrightarrow>
            parse h c PRELOAD a st g0
              = Inr (0, g0\<lparr>enabled_opts := enabled_opts g0 OR OPT_PRELOAD h, preload_file := a\<rparr>))
       \<and> default_misc_opts h AND OPT_PRELOAD h = 0
       \<and> (parseArgs h c pre evs cmd (init_globals c) = Inr (r, g) \<longrightarrow>
            (r AND OPT_PRELOAD h \<noteq> 0 \<longleftrightarrow> (\<exists>f. (PRELOAD, f) \<in> set evs)))"
proof (intro conjI impI)
  assume "\<not> done g0"
  then show "parse h c PRELOAD a st g0
      = Inr (0, g0\<lparr>enabled_opts := enabled_opts g0 OR OPT_PRELOAD h, preload_file := a\<rparr>)"
    by (rule parse_preload [OF ok])
next
  note grp = launch_h_ok_groups [OF ok]
  show dflt: "default_misc_opts h AND OPT_PRELOAD h = 0"
    using grp(13) by (simp add: default_misc_opts_def and.commute)
  assume pa: "parseArgs h c pre evs cmd (init_globals c) = Inr (r, g)"
  then obtain g1 where run: "argp_parse h c pre evs cmd (init_globals c) = Inr g1"
    by (cases "argp_parse h c pre evs cmd (init_globals c)")
      (simp_all add: parseArgs_init and_then_def)
  note res = run_result [OF ok evs run]
  have misc: "opts g1 AND all_misc_opts h
      = (default_misc_opts h OR (enabled_opts g1 AND all_misc_opts h))
        AND NOT (disabled_opts g1 AND all_misc_opts h)"
    using run_groups [OF ok evs run] by simp
  have sub: "OPT_PRELOAD h AND all_misc_opts h = OPT_PRELOAD h"
    by (auto simp: all_misc_opts_def bit_eq_iff bit_and_iff bit_or_iff)
  have dis: "disabled_opts g1 AND OPT_PRELOAD h = 0"
    unfolding res(2) by (rule disabled_by_preload [OF ok])
  have fin: "opts g1 AND OPT_PRELOAD h = enabled_opts g1 AND OPT_PRELOAD h"
    by (rule misc_member_bits [OF misc sub dflt dis])
  have "r AND OPT_PRELOAD h = opts g1 AND OPT_PRELOAD h"
  proof (cases "opts g1 AND OPT_DEBUG h = 0")
    case True
    with pa run show ?thesis by (auto simp: parseArgs_init and_then_def)
  next
    case False
    with pa run have r: "r = ((opts g1 AND NOT (OPT_RELOCAOUT h)) AND NOT (OPT_RELOCEXEC h))
        OR OPT_REMAPEXEC h"
      by (auto simp: parseArgs_init and_then_def)
    show ?thesis
      unfolding r using grp(12,16,17) [unfolded disjoint_bits]
      by (auto simp: bit_eq_iff bit_and_iff bit_or_iff bit_not_iff)
  qed
  then show "r AND OPT_PRELOAD h \<noteq> 0 \<longleftrightarrow> (\<exists>f. (PRELOAD, f) \<in> set evs)"
    unfolding fin res(1) by (simp add: enabled_by_preload [OF ok])
qed

theorem preload_bit_iff_option_witness:
  "launch_h_ok sample_launch_h
   \<and> parse sample_launch_h sample_config PRELOAD (Some ''list.txt'')
        \<lparr>argc = 3, argv = [''spindle'', ''--preload=list.txt'', ''a.out''], next = 2\<rparr>
        (init_globals sample_config)
      = Inr (0, (init_globals sample_config)\<lparr>enabled_opts := 0x10,
                  preload_file := Some ''list.txt''\<rparr>)
   \<and> (\<exists>g. parseArgs sample_launch_h sample_config [''spindle'', ''--preload=list.txt'']
          [(PRELOAD, Some ''list.txt'')] [''a.out''] (init_globals sample_config) = Inr (0xFBA, g)
        \<and> 0xFBA AND OPT_PRELOAD sample_launch_h \<noteq> 0)
   \<and> (\<exists>g. parseArgs sample_launch_h sample_config [''spindle'', ''--strip=yes'']
          [(STRIP, Some ''yes'')] [''a.out''] (init_globals sample_config) = Inr (0xFAA, g)
        \<and> 0xFAA AND OPT_PRELOAD sample_launch_h = 0)"
proof -
  let ?with = "[(PRELOAD, Some ''list.txt'')]"
  let ?without = "[(STRIP, Some ''yes'')]"
  let ?st = "\<lparr>argc = 3, argv = [''spindle'', ''--preload=list.txt'', ''a.out''], next = 2\<rparr>"
  let ?g = "(init_globals sample_config)\<lparr>enabled_opts := 0x10,
    preload_file := Some ''list.txt'', mpi_argv := [''a.out''], mpi_argc := 1, done := True,
    sec_model := 0, opts := 0xFBA\<rparr>"
  let ?g' = "(init_globals sample_config)\<lparr>enabled_opts := 0x800, mpi_argv := [''a.out''],
    mpi_argc := 1, done := True, sec_model := 0, opts := 0xFAA\<rparr>"
  have ok: "launch_h_ok sample_launch_h" by code_simp
  have w: "list_all (option_event sample_launch_h sample_config) ?with" by code_simp
  have wo: "list_all (option_event sample_launch_h sample_config) ?without" by code_simp
  have nd: "\<not> done (init_globals sample_config)" by simp
  have run: "parseArgs sample_launch_h sample_config [''spindle'', ''--preload=list.txt'']
      ?with [''a.out''] (init_globals sample_config) = Inr (0xFBA, ?g)"
    by code_simp
  have run': "parseArgs sample_launch_h sample_config [''spindle'', ''--strip=yes'']
      ?without [''a.out''] (init_globals sample_config) = Inr (0xFAA, ?g')"
    by code_simp
  have mem: "\<exists>f. (PRELOAD, f) \<in> set ?with" "\<not> (\<exists>f. (PRELOAD, f) \<in> set ?without)"
    by (simp_all add: key_defs)
  note t = preload_bit_iff_option [OF ok w, of "init_globals sample_config"
      "Some ''list.txt''" ?st "[''spindle'', ''--preload=list.txt'']" "[''a.out'']" "0xFBA" ?g]
  note t' = preload_bit_iff_option [OF ok wo, of "init_globals sample_config"
      None ?st "[''spindle'', ''--strip=yes'']" "[''a.out'']" "0xFAA" ?g']
  from t nd have 1: "parse sample_launch_h sample_config PRELOAD (Some ''list.txt'') ?st
      (init_globals sample_config)
    = Inr (0, (init_globals sample_config)\<lparr>enabled_opts := 0x10,
                preload_file := Some ''list.txt''\<rparr>)"
    by (simp add: sample_launch_h_def)
  from t run mem(1) have 2: "0xFBA AND OPT_PRELOAD sample_launch_h \<noteq> 0" by blast
  from t' run' mem(2) have 3: "0xFAA AND OPT_PRELOAD sample_launch_h = 0" by blast
  from ok 1 2 3 run run' show ?thesis by blast
qed

text \<open>
  With no option and a command, the run is accepted; \<open>opts\<close> is the union of the four
  compiled default sets and the encoded \<open>DEFAULT_SEC\<close>, the port is the compiled port
  and the security model is \<open>DEFAULT_SEC\<close>.
\<close>

lemma no_flags_defaults:
  assumes ok: "launch_h_ok h"
  shows "\<exists>g. argp_parse h c pre [] (w # ws) (init_globals c) = Inr g
    \<and> opts g = default_reloc_opts h OR default_network_opts h OR default_pushpull_opts h
                OR default_misc_opts h OR OPT_SET_SEC h 0 (DEFAULT_SEC h c)
    \<and> spindle_port g = SPINDLE_PORT c
    \<and> sec_model g = DEFAULT_SEC h c"
proof -
  have evs: "list_all (option_event h c) []" by simp
  have m: "all_misc_opts h AND default_misc_opts h = default_misc_opts h"
    using default_in_all(2) [of h] by (simp add: and.commute)
  have o: "((n OR p OR r) OR s) OR m = r OR n OR p OR m OR s" for n p r s m :: ulong
    by (rule bit_eqI) (auto simp: bit_or_iff)
  show ?thesis
    unfolding argp_parse_options [OF ok evs init_globals_simps(1)]
    by (simp add: and_then_def parse_END [OF ok] default_in_all m OPT_SET_SEC_def
        default_sec_def o)
qed

text \<open>
  The default security model is the first compiled candidate in the builds that define
  \<open>MUNGE\<close> or do not define \<open>SECLMON\<close>.
\<close>

lemma default_sec_first_candidate:
  assumes "MUNGE c \<or> \<not> SECLMON c"
    and "MUNGE c \<or> SECLMON c \<or> KEYFILE c \<or> ENABLE_NULL_ENCRYPTION c"
  shows "first_candidate h c = Some (DEFAULT_SEC h c)"
  using assms
  by (auto simp: first_candidate_def DEFAULT_SEC_def options_def opt_entry_def group_defs
      key_defs)

text \<open>
  C1 (the code departs from it). In a build with \<open>SECLMON\<close> and without \<open>MUNGE\<close>,
  an invocation with a command and no option is accepted with the default bits and the
  default port, but its security model is \<open>OPT_SEC_KEYFILE\<close>, while the first
  compiled candidate, the only security option of that build, is \<open>OPT_SEC_KEYLMON\<close>.
\<close>

theorem default_sec_lmon_build:
  "(\<exists>g. argp_parse sample_launch_h lmon_config [''spindle''] [] [''a.out'']
          (init_globals lmon_config) = Inr g
        \<and> sec_model g = OPT_SEC_KEYFILE sample_launch_h
        \<and> spindle_port g = SPINDLE_PORT lmon_config)
   \<and> first_candidate sample_launch_h lmon_config = Some (OPT_SEC_KEYLMON sample_launch_h)
   \<and> OPT_SEC_KEYLMON sample_launch_h \<noteq> OPT_SEC_KEYFILE sample_launch_h"
proof -
  let ?g = "(init_globals lmon_config)\<lparr>mpi_argv := [''a.out''], mpi_argc := 1, done := True,
    sec_model := 2, opts := 0x100FAA\<rparr>"
  have run: "argp_parse sample_launch_h lmon_config [''spindle''] [] [''a.out'']
      (init_globals lmon_config) = Inr ?g"
    by code_simp
  have fc: "first_candidate sample_launch_h lmon_config = Some (OPT_SEC_KEYLMON sample_launch_h)"
    by code_simp
  have "\<exists>g. argp_parse sample_launch_h lmon_config [''spindle''] [] [''a.out'']
          (init_globals lmon_config) = Inr g
        \<and> sec_model g = OPT_SEC_KEYFILE sample_launch_h
        \<and> spindle_port g = SPINDLE_PORT lmon_config"
    using run by (intro exI [of _ ?g]) (simp add: sample_launch_h_def)
  with fc show ?thesis by (simp add: sample_launch_h_def)
qed

text \<open>
  C5. During the scan phase (the completion flag \<open>done\<close> not yet set), the
  call of the parser for a security option of the compiled table returns 0, sets
  \<open>sec_model\<close> to the model of that option and changes no other variable, in
  particular not the enabled set. It does so whatever \<open>sec_model\<close> held before:
  a second security option raises no error, it overwrites the model chosen by the
  first, so that of two security options in a row the second is the one chosen.
\<close>

theorem security_selection_overwrites:
  assumes ok: "launch_h_ok h"
    and e1: "e1 \<in> set (options h c) \<and> group e1 = GROUP_SEC"
    and e2: "e2 \<in> set (options h c) \<and> group e2 = GROUP_SEC"
    and nd: "\<not> done g"
  shows "parse h c (key e1) a st g = Inr (0, g\<lparr>sec_model := key e1 - 256\<rparr>)
    \<and> key e1 - 256 \<in> set (security_models h)
    \<and> scan h c st [(key e1, a), (key e2, a')] g = Inr (g\<lparr>sec_model := key e2 - 256\<rparr>)"
proof -
  from e1 e2 have m: "e1 \<in> set (sec_entries h c)" "e2 \<in> set (sec_entries h c)"
    by (simp_all add: sec_entries_def)
  have 1: "parse h c (key e1) a st g = Inr (0, g\<lparr>sec_model := key e1 - 256\<rparr>)"
    by (rule parse_sec_entry [OF ok m(1) nd])
  have "\<not> done (g\<lparr>sec_model := key e1 - 256\<rparr>)" using nd by simp
  from parse_sec_entry [OF ok m(2) this, of a' st]
  have 2: "parse h c (key e2) a' st (g\<lparr>sec_model := key e1 - 256\<rparr>)
      = Inr (0, g\<lparr>sec_model := key e2 - 256\<rparr>)"
    by simp
  from 1 2 sec_entries_mem(1) [OF m(1)] show ?thesis
    by (simp add: and_then_def)
qed

theorem security_selection_overwrites_witness:
  "launch_h_ok sample_launch_h
   \<and> opt_entry ''security-munge'' (SECMUNGE sample_launch_h) None 0 GROUP_SEC
        \<in> set (options sample_launch_h sample_config)
   \<and> opt_entry ''security-none'' (SECNULL sample_launch_h) None 0 GROUP_SEC
        \<in> set (options sample_launch_h sample_config)
   \<and> \<not> done (init_globals sample_config)
   \<and> scan sample_launch_h sample_config \<lparr>argc = 0, argv = [], next = 0\<rparr>
        [(SECMUNGE sample_launch_h, None), (SECNULL sample_launch_h, None)]
        (init_globals sample_config)
      = Inr ((init_globals sample_config)\<lparr>sec_model := OPT_SEC_NULL sample_launch_h\<rparr>)"
proof -
  let ?e1 = "opt_entry ''security-munge'' (SECMUNGE sample_launch_h) None 0 GROUP_SEC"
  let ?e2 = "opt_entry ''security-none'' (SECNULL sample_launch_h) None 0 GROUP_SEC"
  have ok: "launch_h_ok sample_launch_h" by code_simp
  have e1: "?e1 \<in> set (options sample_launch_h sample_config) \<and> group ?e1 = GROUP_SEC"
    by (simp add: options_def sample_config_def opt_entry_def)
  have e2: "?e2 \<in> set (options sample_launch_h sample_config) \<and> group ?e2 = GROUP_SEC"
    by (simp add: options_def sample_config_def opt_entry_def)
  have nd: "\<not> done (init_globals sample_config)" by simp
  have k: "key ?e1 = SECMUNGE sample_launch_h" "key ?e2 = SECNULL sample_launch_h"
    "SECNULL sample_launch_h - 256 = OPT_SEC_NULL sample_launch_h"
    by (simp_all add: opt_entry_def SECNULL_def)
  from security_selection_overwrites [OF ok e1 e2 nd, of None
      "\<lparr>argc = 0, argv = [], next = 0\<rparr>" None]
  have "scan sample_launch_h sample_config \<lparr>argc = 0, argv = [], next = 0\<rparr>
        [(SECMUNGE sample_launch_h, None), (SECNULL sample_launch_h, None)]
        (init_globals sample_config)
      = Inr ((init_globals sample_config)\<lparr>sec_model := OPT_SEC_NULL sample_launch_h\<rparr>)"
    unfolding k by (rule conjunct2 [THEN conjunct2])
  with ok e1 e2 nd show ?thesis by blast
qed

text \<open>
  Section 4.2 of the specification makes a second security option an immediate fatal
  error. The command line \<open>spindle --security-munge --security-none a.out\<close> of a
  build with both models is accepted, with the second model chosen.
\<close>

theorem second_security_model_counterexample:
  "argp_parse sample_launch_h sample_config [''spindle'', ''--security-munge'', ''--security-none'']
     [(SECMUNGE sample_launch_h, None), (SECNULL sample_launch_h, None)] [''a.out'']
     (init_globals sample_config)
   = Inr ((init_globals sample_config)\<lparr>mpi_argv := [''a.out''], mpi_argc := 1, done := True,
            sec_model := OPT_SEC_NULL sample_launch_h, opts := 0x180FAA\<rparr>)"
  by code_simp

lemma char_of_digits:
  "char_of (48 :: nat) = CHR ''0''" "char_of (49 :: nat) = CHR ''1''"
  "char_of (50 :: nat) = CHR ''2''" "char_of (51 :: nat) = CHR ''3''"
  "char_of (52 :: nat) = CHR ''4''" "char_of (53 :: nat) = CHR ''5''"
  "char_of (54 :: nat) = CHR ''6''" "char_of (55 :: nat) = CHR ''7''"
  "char_of (56 :: nat) = CHR ''8''" "char_of (57 :: nat) = CHR ''9''"
  by code_simp+

lemma digit_char:
  assumes "d < 10"
  shows "isdigit (char_of (48 + d))" "digit_value (char_of (48 + d)) = int d"
    "\<not> isspace (char_of (48 + d))" "char_of (48 + d) \<noteq> CHR ''-''"
    "char_of (48 + d) \<noteq> CHR ''+''"
proof -
  from assms have "d \<in> {0, 1, 2, 3, 4, 5, 6, 7, 8, 9}" by auto
  then show "isdigit (char_of (48 + d))" "digit_value (char_of (48 + d)) = int d"
    "\<not> isspace (char_of (48 + d))" "char_of (48 + d) \<noteq> CHR ''-''"
    "char_of (48 + d) \<noteq> CHR ''+''"
    by (auto simp: char_of_digits isdigit_def digit_value_def isspace_def less_eq_char_def)
qed

lemma leading_digits_append:
  "list_all isdigit ds \<Longrightarrow> leading_digits acc (ds @ t) = leading_digits (leading_digits acc ds) t"
  by (induction ds arbitrary: acc) simp_all

lemma decimal_digits: "list_all isdigit (decimal n)"
proof (induction n rule: decimal.induct)
  case (1 n)
  show ?case
  proof (cases "n < 10")
    case True
    then show ?thesis by (subst decimal.simps) (simp add: digit_char)
  next
    case False
    then have "list_all isdigit (decimal (n div 10))" by (rule "1.IH")
    moreover have "isdigit (char_of (48 + n mod 10))" by (rule digit_char) simp
    ultimately show ?thesis using False by (subst decimal.simps) simp
  qed
qed

lemma leading_digits_decimal:
  "leading_digits acc (decimal n) = acc * 10 ^ length (decimal n) + int n"
proof (induction n arbitrary: acc rule: decimal.induct)
  case (1 n)
  show ?case
  proof (cases "n < 10")
    case True
    then show ?thesis by (subst (1 2) decimal.simps) (simp add: digit_char)
  next
    case False
    have d: "decimal n = decimal (n div 10) @ [char_of (48 + n mod 10)]"
      using False by (subst decimal.simps) simp
    have m: "n mod 10 < 10" by simp
    have "leading_digits acc (decimal n)
        = leading_digits (leading_digits acc (decimal (n div 10))) [char_of (48 + n mod 10)]"
      unfolding d by (rule leading_digits_append [OF decimal_digits])
    also have "\<dots> = 10 * (acc * 10 ^ length (decimal (n div 10)) + int (n div 10)) + int (n mod 10)"
      unfolding "1.IH" [OF False] by (simp add: digit_char [OF m])
    also have "\<dots> = acc * 10 ^ length (decimal n) + int n"
      unfolding d by (simp add: algebra_simps zdiv_int zmod_int)
    finally show ?thesis .
  qed
qed

lemma decimal_nonempty: "decimal n \<noteq> []"
  by (subst decimal.simps) simp

lemma decimal_hd:
  "isdigit (hd (decimal n))" "\<not> isspace (hd (decimal n))"
  "hd (decimal n) \<noteq> CHR ''-''" "hd (decimal n) \<noteq> CHR ''+''"
proof -
  have "\<exists>d::nat. d < 10 \<and> hd (decimal n) = char_of (48 + d)"
  proof (induction n rule: decimal.induct)
    case (1 n)
    show ?case
    proof (cases "n < 10")
      case True
      then show ?thesis by (subst decimal.simps) auto
    next
      case False
      from "1.IH" [OF False] decimal_nonempty [of "n div 10"] False show ?thesis
        by (subst decimal.simps) simp
    qed
  qed
  then obtain d :: nat where "d < 10" "hd (decimal n) = char_of (48 + d)" by blast
  then show "isdigit (hd (decimal n))" "\<not> isspace (hd (decimal n))"
    "hd (decimal n) \<noteq> CHR ''-''" "hd (decimal n) \<noteq> CHR ''+''"
    using digit_char [of d] by simp_all
qed

text \<open>
  \<open>atoi\<close> reads the decimal numeral of a number below \<open>2 ^ 63\<close>, with or without
  text after it that does not go on with a digit, as that number, cut to 32 bits.
\<close>

lemma strtol10_decimal:
  assumes n: "n < 2 ^ 63" and t: "t = [] \<or> \<not> isdigit (hd t)"
  shows "strtol10 (decimal n @ t) = int n"
proof -
  obtain ch r where d: "decimal n = ch # r"
    using decimal_nonempty [of n] by (cases "decimal n") simp_all
  from decimal_hd [of n] have ch: "isdigit ch" "\<not> isspace ch" "ch \<noteq> CHR ''-''" "ch \<noteq> CHR ''+''"
    unfolding d by simp_all
  have "leading_digits 0 (decimal n @ t) = leading_digits (leading_digits 0 (decimal n)) t"
    by (rule leading_digits_append [OF decimal_digits])
  also have "\<dots> = leading_digits (int n) t" by (simp add: leading_digits_decimal)
  also have "\<dots> = int n" using t by (cases t) simp_all
  finally have v: "leading_digits 0 (decimal n @ t) = int n" .
  have "strtol10 (decimal n @ t) = min LONG_MAX (leading_digits 0 (decimal n @ t))"
    unfolding d using ch by (simp add: strtol10_def)
  also have "\<dots> = int n" unfolding v using n by (simp add: LONG_MAX_def)
  finally show ?thesis .
qed

lemma port_of_decimal:
  assumes n: "n < 2 ^ 32" and t: "t = [] \<or> \<not> isdigit (hd t)"
  shows "(word_of_int (atoi (decimal n @ t)) :: uint) = word_of_nat n"
    and "unat (word_of_nat n :: uint) = n"
    and "0 < n \<Longrightarrow> (word_of_nat n :: uint) \<noteq> 0"
proof -
  from n have "n < 2 ^ 63" by (rule less_trans) simp
  from strtol10_decimal [OF this t]
  show "(word_of_int (atoi (decimal n @ t)) :: uint) = word_of_nat n"
    by (simp add: atoi_def)
  show u: "unat (word_of_nat n :: uint) = n"
    using n by (simp add: unat_of_nat)
  show "(word_of_nat n :: uint) \<noteq> 0" if "0 < n"
    using u that by (metis unat_0 less_numeral_extra(3))
qed

lemma atoi_no_number:
  assumes "s = [] \<or> (\<not> isspace (hd s) \<and> hd s \<noteq> CHR ''-'' \<and> hd s \<noteq> CHR ''+''
    \<and> \<not> isdigit (hd s))"
  shows "atoi s = 0"
  using assms by (cases s) (simp_all add: atoi_def strtol10_def LONG_MAX_def)

text \<open>
  C7. When no port option is supplied and the run is accepted, the port is
  the compiled default. The call of the parser for a port option (during the scan phase)
  reads the value with \<open>atoi\<close> and stores it as an \<open>unsigned int\<close>: if that is zero
  the run ends in the fatal error "Port was given a 0 value", otherwise the port is set
  to it. So a value that does not begin with white space, a sign or a digit, such as
  "abc", is rejected, and so is the numeral of zero; the decimal numeral of a number
  \<open>n\<close> with \<open>0 < n < 2 ^ 32\<close> sets the port to \<open>n\<close>; and a value that continues
  such a numeral with text that does not begin with a digit, such as "12abc", is not
  rejected: it sets the port to \<open>n\<close> as well.
\<close>

theorem port_option:
  assumes ok: "launch_h_ok h" and evs: "list_all (option_event h c) evs"
  shows "((\<forall>a. (PORT, a) \<notin> set evs) \<and> argp_parse h c pre evs cmd (init_globals c) = Inr g
            \<longrightarrow> getPort g = SPINDLE_PORT c)
       \<and> (\<not> done g0 \<longrightarrow>
            parse h c PORT (Some s) st g0
              = (if (word_of_int (atoi s) :: uint) = 0 then Inl PortZeroValue
                 else Inr (0, g0\<lparr>spindle_port := word_of_int (atoi s)\<rparr>)))
       \<and> (\<not> done g0
            \<and> (s = [] \<or> (\<not> isspace (hd s) \<and> hd s \<noteq> CHR ''-'' \<and> hd s \<noteq> CHR ''+''
                            \<and> \<not> isdigit (hd s)))
            \<longrightarrow> parse h c PORT (Some s) st g0 = Inl PortZeroValue)
       \<and> (\<not> done g0 \<and> n < 2 ^ 32 \<and> (t = [] \<or> \<not> isdigit (hd t)) \<longrightarrow>
            parse h c PORT (Some (decimal n @ t)) st g0
              = (if n = 0 then Inl PortZeroValue
                 else Inr (0, g0\<lparr>spindle_port := word_of_nat n\<rparr>))
            \<and> unat (word_of_nat n :: uint) = n)"
proof (intro conjI impI; (elim conjE)?)
  assume "\<forall>a. (PORT, a) \<notin> set evs"
    and run: "argp_parse h c pre evs cmd (init_globals c) = Inr g"
  with run_result(8) [OF ok evs run] show "getPort g = SPINDLE_PORT c"
    by (simp add: getPort_def)
next
  assume nd: "\<not> done g0"
  show "parse h c PORT (Some s) st g0
      = (if (word_of_int (atoi s) :: uint) = 0 then Inl PortZeroValue
         else Inr (0, g0\<lparr>spindle_port := word_of_int (atoi s)\<rparr>))"
    by (simp add: parse_port [OF ok nd])
next
  assume nd: "\<not> done g0"
    and s: "s = [] \<or> (\<not> isspace (hd s) \<and> hd s \<noteq> CHR ''-'' \<and> hd s \<noteq> CHR ''+''
      \<and> \<not> isdigit (hd s))"
  show "parse h c PORT (Some s) st g0 = Inl PortZeroValue"
    by (simp add: parse_port [OF ok nd] atoi_no_number [OF s])
next
  assume nd: "\<not> done g0" and n: "n < 2 ^ 32" and t: "t = [] \<or> \<not> isdigit (hd t)"
  note p = port_of_decimal [OF n t]
  show "parse h c PORT (Some (decimal n @ t)) st g0
      = (if n = 0 then Inl PortZeroValue else Inr (0, g0\<lparr>spindle_port := word_of_nat n\<rparr>))"
    using p(3) by (auto simp: parse_port [OF ok nd] p(1))
  show "unat (word_of_nat n :: uint) = n" by (rule p(2))
qed

theorem port_option_witness:
  "launch_h_ok sample_launch_h
   \<and> (\<exists>g. argp_parse sample_launch_h sample_config [''spindle''] [] [''a.out'']
          (init_globals sample_config) = Inr g
        \<and> getPort g = SPINDLE_PORT sample_config)
   \<and> parse sample_launch_h sample_config PORT (Some ''0'') \<lparr>argc = 0, argv = [], next = 0\<rparr>
        (init_globals sample_config) = Inl PortZeroValue
   \<and> parse sample_launch_h sample_config PORT (Some ''abc'') \<lparr>argc = 0, argv = [], next = 0\<rparr>
        (init_globals sample_config) = Inl PortZeroValue
   \<and> parse sample_launch_h sample_config PORT (Some ''12345'') \<lparr>argc = 0, argv = [], next = 0\<rparr>
        (init_globals sample_config)
      = Inr (0, (init_globals sample_config)\<lparr>spindle_port := 12345\<rparr>)
   \<and> parse sample_launch_h sample_config PORT (Some ''12abc'') \<lparr>argc = 0, argv = [], next = 0\<rparr>
        (init_globals sample_config)
      = Inr (0, (init_globals sample_config)\<lparr>spindle_port := 12\<rparr>)"
proof -
  let ?st = "\<lparr>argc = 0, argv = [], next = 0\<rparr>"
  let ?init = "init_globals sample_config"
  let ?g = "(init_globals sample_config)\<lparr>mpi_argv := [''a.out''], mpi_argc := 1, done := True,
    sec_model := 0, opts := 0xFAA\<rparr>"
  have ok: "launch_h_ok sample_launch_h" by code_simp
  have evs: "list_all (option_event sample_launch_h sample_config) []" by simp
  have nd: "\<not> done ?init" by simp
  have absent: "\<forall>a. (PORT, a) \<notin> set []" by simp
  have run: "argp_parse sample_launch_h sample_config [''spindle''] [] [''a.out''] ?init = Inr ?g"
    by code_simp
  have d0: "decimal 0 = ''0''"
    by (subst decimal.simps) (simp add: char_of_digits)
  have d1: "decimal (Suc 0) = ''1''"
    by (subst decimal.simps) (simp add: char_of_digits)
  have d12: "decimal 12 = ''12''"
    by (subst decimal.simps) (simp add: d1 char_of_digits)
  have "decimal 123 = ''123''"
    by (subst decimal.simps) (simp add: d12 char_of_digits)
  then have "decimal 1234 = ''1234''"
    by (subst decimal.simps) (simp add: char_of_digits)
  then have d12345: "decimal 12345 = ''12345''"
    by (subst decimal.simps) (simp add: char_of_digits)
  note d = d0 d12345 d12
  have abc: "\<not> isspace (hd ''abc'') \<and> hd ''abc'' \<noteq> CHR ''-'' \<and> hd ''abc'' \<noteq> CHR ''+''
      \<and> \<not> isdigit (hd ''abc'')"
    by code_simp
  have t: "\<not> isdigit (hd ''abc'')" using abc by blast
  note po = port_option [OF ok evs, of "[''spindle'']" "[''a.out'']" ?g ?init _ ?st]
  from po [of "[]" 0 "[]"] run absent have 1: "getPort ?g = SPINDLE_PORT sample_config"
    by blast
  from po [of "''abc''" 0 "[]"] nd abc
  have 2: "parse sample_launch_h sample_config PORT (Some ''abc'') ?st ?init = Inl PortZeroValue"
    by blast
  from po [of "[]" 0 "[]"] nd
  have 3: "parse sample_launch_h sample_config PORT (Some ''0'') ?st ?init = Inl PortZeroValue"
    unfolding d by simp
  from po [of "[]" 12345 "[]"] nd
  have 4: "parse sample_launch_h sample_config PORT (Some ''12345'') ?st ?init
      = Inr (0, ?init\<lparr>spindle_port := 12345\<rparr>)"
    unfolding d by simp
  from po [of "[]" 12 "''abc''"] nd t
  have 5: "parse sample_launch_h sample_config PORT (Some ''12abc'') ?st ?init
      = Inr (0, ?init\<lparr>spindle_port := 12\<rparr>)"
    unfolding d by simp
  from ok run 1 2 3 4 5 show ?thesis by blast
qed

text \<open>
  Section 4.2 of the specification makes a non-numeric port value a fatal error. The
  value of \<open>spindle --port=12abc a.out\<close> is not a numeral, and the command line is
  accepted, with port 12.
\<close>

theorem port_trailing_text_counterexample:
  "\<not> list_all isdigit ''12abc''
   \<and> argp_parse sample_launch_h sample_config [''spindle'', ''--port=12abc'']
       [(PORT, Some ''12abc'')] [''a.out''] (init_globals sample_config)
     = Inr ((init_globals sample_config)\<lparr>mpi_argv := [''a.out''], mpi_argc := 1, done := True,
              sec_model := 0, spindle_port := 12, opts := 0xFAA\<rparr>)"
  by code_simp

text \<open>
  The python prefix resolver. The loop of \<open>parse_python_prefix\<close> inserts the
  segments between the colons, one after the other; on a set held as a sorted list
  without duplicates that gives the sorted list of the old members and the new
  non-empty segments; and the loop of \<open>getPythonPrefixes\<close> joins a non-empty set with
  colons. So the first call of \<open>getPythonPrefixes\<close> returns what the specification says
  whenever there is a segment at all.
\<close>

lemma split_colon_unfold:
  "split_colon cur =
     takeWhile (\<lambda>ch. ch \<noteq> CHR '':'') cur
       # (case dropWhile (\<lambda>ch. ch \<noteq> CHR '':'') cur of [] \<Rightarrow> [] | ch # cur' \<Rightarrow> split_colon cur')"
  by (induction cur) simp_all

lemma parse_python_prefix_loop_fold:
  "parse_python_prefix_loop cur ps = fold insert_segment (split_colon cur) ps"
proof (induction cur ps rule: parse_python_prefix_loop.induct)
  case (1 cur ps)
  show ?case
  proof (cases "dropWhile (\<lambda>ch. ch \<noteq> CHR '':'') cur")
    case Nil
    show ?thesis
      by (subst parse_python_prefix_loop.simps, subst split_colon_unfold,
          simp only: Nil Let_def list.case, simp add: insert_segment_def)
  next
    case (Cons ch cur')
    note IH = 1 [OF refl refl refl Cons]
    show ?thesis
      by (subst parse_python_prefix_loop.simps, subst split_colon_unfold,
          simp only: Cons Let_def list.case, simp add: insert_segment_def insert_segment_def [abs_def] IH)
  qed
qed

lemma fold_insert_segment:
  assumes "sorted ps" "distinct ps"
  shows "fold insert_segment xs ps = sort (remdups (ps @ filter (\<lambda>s. s \<noteq> []) xs))"
proof -
  have inv: "sorted (fold insert_segment xs ps) \<and> distinct (fold insert_segment xs ps)
      \<and> set (fold insert_segment xs ps) = set ps \<union> {s \<in> set xs. s \<noteq> []}"
    using assms
  proof (induction xs arbitrary: ps)
    case Nil
    then show ?case by simp
  next
    case (Cons x xs)
    have "sorted (insert_segment x ps)" "distinct (insert_segment x ps)"
      using Cons.prems by (simp_all add: insert_segment_def sorted_insort_insert distinct_insort_insert)
    from Cons.IH [OF this] show ?case
      by (auto simp: insert_segment_def set_insort_insert)
  qed
  have "fold insert_segment xs ps = sorted_list_of_set (set (ps @ filter (\<lambda>s. s \<noteq> []) xs))"
    using inv by (intro sorted_distinct_set_unique) auto
  then show ?thesis by (simp only: sorted_list_of_set_sort_remdups)
qed

lemma getPythonPrefixes_loop_join:
  "ps \<noteq> [] \<Longrightarrow> getPythonPrefixes_loop ps result = Inr (result @ join_colon ps)"
  by (induction ps result rule: getPythonPrefixes_loop.induct) simp_all

lemma python_prefixes_resolved:
  assumes "sorted (python_prefixes g)" "distinct (python_prefixes g)"
  shows "getPythonPrefixes c g =
     (let ps = sort (remdups (python_prefixes g
                 @ prefix_segments (PYTHON_INST_PREFIX c) (user_python_prefixes g)))
      in if ps = [] then Inl EmptySetDereference
         else Inr (join_colon ps, g\<lparr>python_prefixes := ps\<rparr>))"
proof -
  let ?d = "PYTHON_INST_PREFIX c"
  let ?ps1 = "sort (remdups (python_prefixes g @ filter (\<lambda>s. s \<noteq> []) (split_colon ?d)))"
  have 1: "parse_python_prefix (Some (default_python_prefixes c)) (python_prefixes g) = ?ps1"
    by (simp add: parse_python_prefix_def default_python_prefixes_def
        parse_python_prefix_loop_fold fold_insert_segment [OF assms])
  have s1: "sorted ?ps1" "distinct ?ps1" by simp_all
  have 2: "parse_python_prefix (user_python_prefixes g) ?ps1
      = sort (remdups (python_prefixes g @ prefix_segments ?d (user_python_prefixes g)))"
  proof (cases "user_python_prefixes g")
    case None
    then show ?thesis by (simp add: parse_python_prefix_def prefix_segments_def)
  next
    case (Some u)
    have "sort (remdups (?ps1 @ filter (\<lambda>s. s \<noteq> []) (split_colon u)))
        = sort (remdups (python_prefixes g @ filter (\<lambda>s. s \<noteq> []) (split_colon ?d)
            @ filter (\<lambda>s. s \<noteq> []) (split_colon u)))"
      by (simp only: sorted_list_of_set_sort_remdups [symmetric]) (simp add: Un_assoc)
    with Some show ?thesis
      by (simp add: parse_python_prefix_def prefix_segments_def
          parse_python_prefix_loop_fold fold_insert_segment [OF s1])
  qed
  show ?thesis
    unfolding getPythonPrefixes_def 1 2 Let_def
    by (simp add: and_then_def getPythonPrefixes_loop_join)
qed

lemma sort_remdups_Nil: "sort (remdups xs) = [] \<longleftrightarrow> xs = []"
proof -
  have "set (sort (remdups xs)) = set xs" by simp
  then show ?thesis by (metis set_empty)
qed

lemma python_prefixes_first_call:
  "getPythonPrefixes c ((init_globals c)\<lparr>user_python_prefixes := u\<rparr>) =
     (if prefix_segments (PYTHON_INST_PREFIX c) u = [] then Inl EmptySetDereference
      else Inr (spec_python_prefixes (PYTHON_INST_PREFIX c) u,
                (init_globals c)\<lparr>user_python_prefixes := u,
                   python_prefixes := sort (remdups (prefix_segments (PYTHON_INST_PREFIX c) u))\<rparr>))"
proof -
  let ?g = "(init_globals c)\<lparr>user_python_prefixes := u\<rparr>"
  have e: "python_prefixes ?g = []" by (simp add: init_globals_def)
  have "sorted (python_prefixes ?g)" "distinct (python_prefixes ?g)" unfolding e by simp_all
  from python_prefixes_resolved [OF this, of c] show ?thesis
    unfolding e by (simp add: spec_python_prefixes_def Let_def sort_remdups_Nil)
qed

lemma python_prefixes_order_independent:
  "set (prefix_segments d u) = set (prefix_segments d' u')
     \<Longrightarrow> spec_python_prefixes d u = spec_python_prefixes d' u'"
  by (simp only: spec_python_prefixes_def sorted_list_of_set_sort_remdups [symmetric])

lemma python_prefixes_merge_example:
  "getPythonPrefixes sample_config
       ((init_globals sample_config)\<lparr>user_python_prefixes := Some ''/b:/c''\<rparr>)
     = Inr (''/a:/b:/c'',
            (init_globals sample_config)\<lparr>user_python_prefixes := Some ''/b:/c'',
               python_prefixes := [''/a'', ''/b'', ''/c'']\<rparr>)"
  "spec_python_prefixes ''/a:/b'' (Some ''/b:/c'') = ''/a:/b:/c''"
  "spec_python_prefixes ''/b:/c'' (Some ''/a:/b'') = ''/a:/b:/c''"
  by code_simp+

text \<open>
  C8. \<open>getPythonPrefixes\<close> on a build whose default prefix list is empty, called when
  no user list was given: neither list has a segment, the set \<open>python_prefixes\<close> stays
  empty, and the loop reads \<open>*i\<close> at \<open>begin()\<close>, which is \<open>end()\<close>, before it
  compares the iterator with \<open>end()\<close>. The resolver of the specification returns the
  empty string there, the join of no segment. On every other input the two agree
  (\<open>python_prefixes_first_call\<close>).
\<close>

theorem python_prefixes_empty_set:
  "prefix_segments (PYTHON_INST_PREFIX (sample_config\<lparr>PYTHON_INST_PREFIX := []\<rparr>)) None = []
   \<and> spec_python_prefixes (PYTHON_INST_PREFIX (sample_config\<lparr>PYTHON_INST_PREFIX := []\<rparr>)) None
       = []
   \<and> getPythonPrefixes (sample_config\<lparr>PYTHON_INST_PREFIX := []\<rparr>)
       (init_globals (sample_config\<lparr>PYTHON_INST_PREFIX := []\<rparr>))
     = Inl EmptySetDereference"
  by code_simp

end
